theory Spec2Isabelle
  imports Complex_Main "HOL-Library.Multiset"
begin

section \<open>JavaScript containers\<close>

text \<open>
  A JavaScript \<^verbatim>\<open>Map\<close> iterates in insertion order, \<^verbatim>\<open>set\<close> on a key that is present
  keeps the key's position and \<^verbatim>\<open>set\<close> on a new key appends it. It is modelled as an
  association list; \<open>Map_size\<close> is the number of entries.
\<close>

fun Map_get :: "('k \<times> 'v) list \<Rightarrow> 'k \<Rightarrow> 'v option" where
  "Map_get [] k = None"
| "Map_get ((k', v) # m) k = (if k' = k then Some v else Map_get m k)"

definition Map_has :: "('k \<times> 'v) list \<Rightarrow> 'k \<Rightarrow> bool" where
  "Map_has m k = (Map_get m k \<noteq> None)"

fun Map_set :: "('k \<times> 'v) list \<Rightarrow> 'k \<Rightarrow> 'v \<Rightarrow> ('k \<times> 'v) list" where
  "Map_set [] k v = [(k, v)]"
| "Map_set ((k', v') # m) k v =
     (if k' = k then (k, v) # m else (k', v') # Map_set m k v)"

definition Map_size :: "('k \<times> 'v) list \<Rightarrow> nat" where
  "Map_size m = length m"

definition Map_keys :: "('k \<times> 'v) list \<Rightarrow> 'k list" where
  "Map_keys m = map fst m"

text \<open>\<^verbatim>\<open>arr.splice(0, n)\<close> removes the first \<open>n\<close> elements of the array in place.\<close>

definition splice0 :: "nat \<Rightarrow> 'a list \<Rightarrow> 'a list" where
  "splice0 n arr = drop n arr"

section \<open>Metric stores of the monitoring service\<close>

text \<open>
  Source: \<^verbatim>\<open>src/services/monitoringService.js\<close>. Timestamps are the millisecond readings
  of \<^verbatim>\<open>Date.now()\<close>; each operation that reads the clock takes the reading as its first
  argument. Status codes and response times are integers.
\<close>

record RequestRecord =
  timestamp :: int
  statusCode :: int
  responseTime :: int
  userId :: "string option"
  success :: bool

datatype Severity = Low | Medium | High | Critical

text \<open>
  The error object handed to \<^verbatim>\<open>recordError\<close>: \<open>name\<close> is empty when the property is
  missing or the empty string (both are falsy). The context is an open property bag.
\<close>

record JsError =
  name :: string
  message :: string
  stack :: string

type_synonym Context = "(string \<times> string) list"

record ErrorRecord =
  err_timestamp :: int
  err_message :: string
  err_stack :: string
  err_context :: Context
  severity :: Severity

text \<open>
  The service object: the two metric maps, the keys of the system-snapshot map (the
  snapshots are not modelled) and the start time.
\<close>

record MonitoringService =
  requests :: "(string \<times> RequestRecord list) list"
  errors :: "(string \<times> ErrorRecord list) list"
  system :: "int list"
  startTime :: int

definition new_MonitoringService :: "int \<Rightarrow> MonitoringService" where
  "new_MonitoringService now =
     \<lparr>requests = [], errors = [], system = [], startTime = now\<rparr>"

definition recordRequest ::
  "int \<Rightarrow> string \<Rightarrow> string \<Rightarrow> int \<Rightarrow> int \<Rightarrow> string option \<Rightarrow>
   MonitoringService \<Rightarrow> MonitoringService" where
  "recordRequest now endpoint meth code rtime uid s =
     (let key = meth @ '':'' @ endpoint;
          m1 = (if \<not> Map_has (requests s) key then Map_set (requests s) key []
                else requests s);
          pushed = (case Map_get m1 key of Some arr \<Rightarrow> arr | None \<Rightarrow> []) @
                   [\<lparr>timestamp = now, statusCode = code, responseTime = rtime,
                     userId = uid, success = (code \<ge> 200 \<and> code < 400)\<rparr>];
          kept = (if length pushed > 1000
                  then splice0 (length pushed - 1000) pushed else pushed)
      in s\<lparr>requests := Map_set m1 key kept\<rparr>)"

definition getErrorSeverity :: "JsError \<Rightarrow> Severity" where
  "getErrorSeverity error =
     (if name error = ''ValidationError'' then Low
      else if name error = ''AuthenticationError'' then Medium
      else if name error = ''DatabaseError'' then High
      else if name error = ''SystemError'' then Critical
      else Medium)"

definition recordError ::
  "int \<Rightarrow> JsError \<Rightarrow> Context \<Rightarrow> MonitoringService \<Rightarrow> MonitoringService" where
  "recordError now error ctx s =
     (let errorKey = (if name error \<noteq> [] then name error else ''UnknownError'');
          m1 = (if \<not> Map_has (errors s) errorKey then Map_set (errors s) errorKey []
                else errors s);
          pushed = (case Map_get m1 errorKey of Some arr \<Rightarrow> arr | None \<Rightarrow> []) @
                   [\<lparr>err_timestamp = now, err_message = message error,
                     err_stack = stack error, err_context = ctx,
                     severity = getErrorSeverity error\<rparr>];
          kept = (if length pushed > 500
                  then splice0 (length pushed - 500) pushed else pushed)
      in s\<lparr>errors := Map_set m1 errorKey kept\<rparr>)"

text \<open>
  \<^verbatim>\<open>cleanOldMetrics\<close> replaces every log by its records of the last hour; the keys stay,
  also those whose log becomes empty.
\<close>

definition cleanOldMetrics :: "int \<Rightarrow> MonitoringService \<Rightarrow> MonitoringService" where
  "cleanOldMetrics now s =
     (let oneHourAgo = now - 60 * 60 * 1000 in
      s\<lparr>requests := map (\<lambda>(endpoint, rs).
                          (endpoint, filter (\<lambda>r. timestamp r \<ge> oneHourAgo) rs))
                        (requests s),
        errors := map (\<lambda>(errorType, es).
                          (errorType, filter (\<lambda>e. err_timestamp e \<ge> oneHourAgo) es))
                      (errors s)\<rparr>)"

text \<open>
  \<^verbatim>\<open>getStats\<close>; the process memory reading and the fixed list of health-check names
  are left out.
\<close>

record Stats =
  stats_requests :: nat
  stats_errors :: nat
  systemSnapshots :: nat
  uptime :: int

definition getStats :: "int \<Rightarrow> MonitoringService \<Rightarrow> Stats" where
  "getStats now s =
     \<lparr>stats_requests = Map_size (requests s),
      stats_errors = Map_size (errors s),
      systemSnapshots = length (system s),
      uptime = now - startTime s\<rparr>"

subsection \<open>Sequences of recording calls\<close>

datatype Call =
    RecordRequest int string string int int "string option"
  | RecordError int JsError Context

fun exec :: "Call \<Rightarrow> MonitoringService \<Rightarrow> MonitoringService" where
  "exec (RecordRequest now endpoint meth code rtime uid) s =
     recordRequest now endpoint meth code rtime uid s"
| "exec (RecordError now error ctx) s = recordError now error ctx s"

definition run :: "Call list \<Rightarrow> MonitoringService \<Rightarrow> MonitoringService" where
  "run cs s = fold exec cs s"

text \<open>
  The states the service can be in: the constructor's state and what the recording
  calls, the periodic clean-up and the periodic sampling (which replaces the snapshot
  keys) make of a state.
\<close>

inductive reachable :: "MonitoringService \<Rightarrow> bool" where
  constructed: "reachable (new_MonitoringService now)"
| recorded_request:
    "reachable s \<Longrightarrow> reachable (recordRequest now endpoint meth code rtime uid s)"
| recorded_error: "reachable s \<Longrightarrow> reachable (recordError now error ctx s)"
| cleaned: "reachable s \<Longrightarrow> reachable (cleanOldMetrics now s)"
| sampled: "reachable s \<Longrightarrow> reachable (s\<lparr>system := snapshot_keys\<rparr>)"

text \<open>The key a recording call files its request under.\<close>

fun request_key :: "Call \<Rightarrow> string option" where
  "request_key (RecordRequest now endpoint meth code rtime uid) =
     Some (meth @ '':'' @ endpoint)"
| "request_key (RecordError now error ctx) = None"

text \<open>The log stored under a key; a key that is absent has no records.\<close>

definition request_log :: "MonitoringService \<Rightarrow> string \<Rightarrow> RequestRecord list" where
  "request_log s k = (case Map_get (requests s) k of Some arr \<Rightarrow> arr | None \<Rightarrow> [])"

definition error_log :: "MonitoringService \<Rightarrow> string \<Rightarrow> ErrorRecord list" where
  "error_log s k = (case Map_get (errors s) k of Some arr \<Rightarrow> arr | None \<Rightarrow> [])"

text \<open>
  What a call sequence asks to be recorded under a key, in call order: the reference
  against which the logs are compared.
\<close>

fun requests_to :: "string \<Rightarrow> Call list \<Rightarrow> RequestRecord list" where
  "requests_to k [] = []"
| "requests_to k (RecordRequest now endpoint meth code rtime uid # cs) =
     (if meth @ '':'' @ endpoint = k
      then \<lparr>timestamp = now, statusCode = code, responseTime = rtime,
            userId = uid, success = (code \<ge> 200 \<and> code < 400)\<rparr> # requests_to k cs
      else requests_to k cs)"
| "requests_to k (RecordError now error ctx # cs) = requests_to k cs"

fun errors_of :: "string \<Rightarrow> Call list \<Rightarrow> ErrorRecord list" where
  "errors_of k [] = []"
| "errors_of k (RecordRequest now endpoint meth code rtime uid # cs) = errors_of k cs"
| "errors_of k (RecordError now error ctx # cs) =
     (if (if name error \<noteq> [] then name error else ''UnknownError'') = k
      then \<lparr>err_timestamp = now, err_message = message error, err_stack = stack error,
            err_context = ctx, severity = getErrorSeverity error\<rparr> # errors_of k cs
      else errors_of k cs)"

text \<open>The last \<open>n\<close> elements of a list, in order.\<close>

definition lastn :: "nat \<Rightarrow> 'a list \<Rightarrow> 'a list" where
  "lastn n xs = drop (length xs - n) xs"

section \<open>Metric queries\<close>

text \<open>
  \<^verbatim>\<open>Math.round\<close> rounds to the nearest integer, halves upwards. Averages and rates are
  computed over the rationals.
\<close>

definition Math_round :: "rat \<Rightarrow> int" where
  "Math_round x = \<lfloor>x + 1 / 2\<rfloor>"

text \<open>
  \<^verbatim>\<open>Array.prototype.sort(compareFn)\<close> is a stable sort since ECMAScript 2019, and the
  source needs a later engine (it uses optional chaining): the result is ordered by the
  comparator and elements that compare equal keep their relative order. For a
  consistent comparator that result is unique; it is computed here by insertion from the
  right.
\<close>

fun insert_sorted :: "('a \<Rightarrow> 'a \<Rightarrow> int) \<Rightarrow> 'a \<Rightarrow> 'a list \<Rightarrow> 'a list" where
  "insert_sorted compareFn x [] = [x]"
| "insert_sorted compareFn x (y # ys) =
     (if compareFn x y \<le> 0 then x # y # ys else y # insert_sorted compareFn x ys)"

definition Array_sort :: "('a \<Rightarrow> 'a \<Rightarrow> int) \<Rightarrow> 'a list \<Rightarrow> 'a list" where
  "Array_sort compareFn xs = foldr (insert_sorted compareFn) xs []"

subsection \<open>\<^verbatim>\<open>getRequestMetrics\<close>\<close>

record EndpointMetrics =
  ep_total :: nat
  ep_successful :: nat
  ep_failed :: nat
  ep_averageResponseTime :: int
  ep_errorRate :: rat

text \<open>
  The object returned by \<^verbatim>\<open>getRequestMetrics\<close>. The source creates it without an
  \<^verbatim>\<open>errorRate\<close> property and assigns the property only when a request was counted:
  \<open>None\<close> is the missing property (\<^verbatim>\<open>undefined\<close>).
\<close>

record RequestMetrics =
  total :: nat
  successful :: nat
  failed :: nat
  averageResponseTime :: int
  errorRate :: "rat option"
  endpoints :: "(string \<times> EndpointMetrics) list"

definition initial_RequestMetrics :: RequestMetrics where
  "initial_RequestMetrics =
     \<lparr>total = 0, successful = 0, failed = 0, averageResponseTime = 0,
      errorRate = None, endpoints = []\<rparr>"

text \<open>
  One iteration of the loop over the request map; the loop state is the metrics object
  with the two local accumulators \<^verbatim>\<open>totalResponseTime\<close> and \<^verbatim>\<open>requestCount\<close>.
\<close>

fun request_step ::
  "int \<Rightarrow> RequestMetrics \<times> int \<times> nat \<Rightarrow> string \<times> RequestRecord list \<Rightarrow>
   RequestMetrics \<times> int \<times> nat" where
  "request_step since (metrics, totalResponseTime, requestCount) (endpoint, rs) =
     (let recentRequests = filter (\<lambda>r. timestamp r \<ge> since) rs in
      if length recentRequests > 0 then
        (let succ = length (filter success recentRequests);
             fail = length recentRequests - succ;
             avgResponseTime =
               of_int (sum_list (map responseTime recentRequests)) /
               of_nat (length recentRequests)
         in (metrics\<lparr>endpoints := Map_set (endpoints metrics) endpoint
                        \<lparr>ep_total = length recentRequests, ep_successful = succ,
                         ep_failed = fail,
                         ep_averageResponseTime = Math_round avgResponseTime,
                         ep_errorRate = of_nat fail / of_nat (length recentRequests)\<rparr>,
                     total := total metrics + length recentRequests,
                     successful := successful metrics + succ,
                     failed := failed metrics + fail\<rparr>,
             totalResponseTime + sum_list (map responseTime recentRequests),
             requestCount + length recentRequests))
      else (metrics, totalResponseTime, requestCount))"

definition getRequestMetrics :: "int \<Rightarrow> MonitoringService \<Rightarrow> RequestMetrics" where
  "getRequestMetrics since s =
     (case foldl (request_step since) (initial_RequestMetrics, 0, 0) (requests s) of
        (metrics, totalResponseTime, requestCount) \<Rightarrow>
          if requestCount > 0
          then metrics\<lparr>averageResponseTime :=
                          Math_round (of_int totalResponseTime / of_nat requestCount),
                       errorRate := Some (of_nat (failed metrics) / of_nat (total metrics))\<rparr>
          else metrics)"

subsection \<open>\<^verbatim>\<open>getErrorMetrics\<close>\<close>

record RecentError =
  rec_type :: string
  rec_message :: string
  rec_timestamp :: int
  rec_severity :: Severity

record BySeverity =
  by_low :: nat
  by_medium :: nat
  by_high :: nat
  by_critical :: nat

record ErrorMetrics =
  err_total :: nat
  byType :: "(string \<times> nat) list"
  bySeverity :: BySeverity
  recent :: "RecentError list"

definition initial_ErrorMetrics :: ErrorMetrics where
  "initial_ErrorMetrics =
     \<lparr>err_total = 0, byType = [],
      bySeverity = \<lparr>by_low = 0, by_medium = 0, by_high = 0, by_critical = 0\<rparr>,
      recent = []\<rparr>"

text \<open>\<^verbatim>\<open>metrics.bySeverity[error.severity]++\<close>\<close>

fun count_severity :: "BySeverity \<Rightarrow> ErrorRecord \<Rightarrow> BySeverity" where
  "count_severity b error =
     (case severity error of
        Low \<Rightarrow> b\<lparr>by_low := by_low b + 1\<rparr>
      | Medium \<Rightarrow> b\<lparr>by_medium := by_medium b + 1\<rparr>
      | High \<Rightarrow> b\<lparr>by_high := by_high b + 1\<rparr>
      | Critical \<Rightarrow> b\<lparr>by_critical := by_critical b + 1\<rparr>)"

definition to_recent :: "string \<Rightarrow> ErrorRecord \<Rightarrow> RecentError" where
  "to_recent errorType error =
     \<lparr>rec_type = errorType, rec_message = err_message error,
      rec_timestamp = err_timestamp error, rec_severity = severity error\<rparr>"

text \<open>
  One iteration of the loop over the error map. \<^verbatim>\<open>recentErrors.slice(-10)\<close> is the
  last ten of the kind's records at or after the cutoff.
\<close>

fun error_step :: "int \<Rightarrow> ErrorMetrics \<Rightarrow> string \<times> ErrorRecord list \<Rightarrow> ErrorMetrics" where
  "error_step since metrics (errorType, es) =
     (let recentErrors = filter (\<lambda>e. err_timestamp e \<ge> since) es in
      if length recentErrors > 0 then
        metrics\<lparr>byType := Map_set (byType metrics) errorType (length recentErrors),
                err_total := err_total metrics + length recentErrors,
                bySeverity := foldl count_severity (bySeverity metrics) recentErrors,
                recent := recent metrics @
                          map (to_recent errorType) (lastn 10 recentErrors)\<rparr>
      else metrics)"

definition getErrorMetrics :: "int \<Rightarrow> MonitoringService \<Rightarrow> ErrorMetrics" where
  "getErrorMetrics since s =
     (let metrics = foldl (error_step since) initial_ErrorMetrics (errors s);
          sorted_recent =
            Array_sort (\<lambda>a b. rec_timestamp b - rec_timestamp a) (recent metrics)
      in metrics\<lparr>recent := take 20 sorted_recent\<rparr>)"

text \<open>
  Reference notions for the error query: the records of all kinds at or after the
  cutoff, and the records that reach the sort, which are the last ten of each kind.
\<close>

definition qualifying :: "int \<Rightarrow> MonitoringService \<Rightarrow> RecentError list" where
  "qualifying since s =
     concat (map (\<lambda>(errorType, es).
                    map (to_recent errorType) (filter (\<lambda>e. err_timestamp e \<ge> since) es))
                 (errors s))"

definition candidates :: "int \<Rightarrow> MonitoringService \<Rightarrow> RecentError list" where
  "candidates since s =
     concat (map (\<lambda>(errorType, es).
                    map (to_recent errorType)
                        (lastn 10 (filter (\<lambda>e. err_timestamp e \<ge> since) es)))
                 (errors s))"

text \<open>The \<open>n\<close> most recent of a list of records, newest first, as timestamps.\<close>

definition most_recent :: "nat \<Rightarrow> RecentError list \<Rightarrow> int list" where
  "most_recent n rs = take n (rev (sort (map rec_timestamp rs)))"

section \<open>Health evaluation\<close>

text \<open>
  A component's check result: statuses are the strings the source compares. The
  message is missing (\<open>None\<close>) or a string; \<^verbatim>\<open>result.message || fallback\<close> takes the
  fallback when the message is missing or empty. Component-specific fields are left out.
\<close>

record HealthCheckResult =
  status :: string
  check_message :: "string option"
  error_flag :: bool

text \<open>A check function either returns a result or throws an error with a message.\<close>

datatype CheckOutcome = Returned HealthCheckResult | Threw string

text \<open>
  An alert carries one of the three severities the source writes as the literals
  \<^verbatim>\<open>'info'\<close>, \<^verbatim>\<open>'warning'\<close> and \<^verbatim>\<open>'critical'\<close>.
\<close>

datatype AlertSeverity = info | warning | critical

fun severity_name :: "AlertSeverity \<Rightarrow> string" where
  "severity_name info = ''info''"
| "severity_name warning = ''warning''"
| "severity_name critical = ''critical''"

record Alert =
  component :: string
  alert_severity :: AlertSeverity
  alert_message :: string

text \<open>
  The object built by \<^verbatim>\<open>performHealthCheck\<close>, without its time stamp and the metrics
  summary attached after the loop.
\<close>

record HealthResults =
  overall :: string
  components :: "(string \<times> HealthCheckResult) list"
  alerts :: "Alert list"

definition or_else :: "string option \<Rightarrow> string \<Rightarrow> string" where
  "or_else m fallback = (case m of None \<Rightarrow> fallback | Some t \<Rightarrow> if t \<noteq> [] then t else fallback)"

text \<open>The body of the loop over the registered checks, with its \<^verbatim>\<open>catch\<close> branch.\<close>

fun health_step :: "HealthResults \<Rightarrow> string \<times> CheckOutcome \<Rightarrow> HealthResults" where
  "health_step results (cname, Returned result) =
     (let results1 = results\<lparr>components := Map_set (components results) cname result\<rparr> in
      if status result = ''critical'' \<or> status result = ''error'' then
        results1\<lparr>alerts := alerts results1 @
                    [\<lparr>component = cname, alert_severity = critical,
                      alert_message =
                        or_else (check_message result) (cname @ '' health check failed'')\<rparr>],
                 overall := ''critical''\<rparr>
      else if status result = ''warning'' \<and> overall results1 = ''healthy'' then
        results1\<lparr>alerts := alerts results1 @
                    [\<lparr>component = cname, alert_severity = warning,
                      alert_message =
                        or_else (check_message result) (cname @ '' health check warning'')\<rparr>],
                 overall := ''warning''\<rparr>
      else results1)"
| "health_step results (cname, Threw msg) =
     results\<lparr>components := Map_set (components results) cname
                 \<lparr>status = ''error'', check_message = Some msg, error_flag = True\<rparr>,
             alerts := alerts results @
                 [\<lparr>component = cname, alert_severity = critical,
                   alert_message = ''Health check failed: '' @ msg\<rparr>],
             overall := ''critical''\<rparr>"

text \<open>
  \<^verbatim>\<open>performHealthCheck\<close> over the outcomes of the registered checks, in registration
  order.
\<close>

definition performHealthCheck :: "(string \<times> CheckOutcome) list \<Rightarrow> HealthResults" where
  "performHealthCheck checks =
     foldl health_step \<lparr>overall = ''healthy'', components = [], alerts = []\<rparr> checks"

text \<open>The status a component ends up with: a check that throws is recorded as an error.\<close>

fun component_status :: "string \<times> CheckOutcome \<Rightarrow> string" where
  "component_status (cname, Returned result) = status result"
| "component_status (cname, Threw msg) = ''error''"

text \<open>
  The order of the specification, error and critical above warning above healthy, as
  a rank; the worst rank of a list of statuses.
\<close>

definition status_rank :: "string \<Rightarrow> nat" where
  "status_rank st =
     (if st = ''error'' \<or> st = ''critical'' then 2 else if st = ''warning'' then 1 else 0)"

definition worst_rank :: "string list \<Rightarrow> nat" where
  "worst_rank sts = fold max (map status_rank sts) 0"

subsection \<open>Memory check\<close>

text \<open>
  \<^verbatim>\<open>checkMemoryHealth\<close> reads the two usage percentages of \<^verbatim>\<open>getMemoryMetrics\<close> and
  compares them with \<^verbatim>\<open>alertThresholds.memoryUsage * 100\<close>, where the threshold is 0.9,
  and with 75. The function below is the \<^verbatim>\<open>status\<close> of the returned object; the other
  fields only format the same readings. Percentages are rationals.
\<close>

record MemoryUsage =
  process_usagePercent :: rat
  system_usagePercent :: rat

definition alertThresholds_memoryUsage :: rat where
  "alertThresholds_memoryUsage = 9 / 10"

definition checkMemoryHealth :: "MemoryUsage \<Rightarrow> string" where
  "checkMemoryHealth memory =
     (let processUsage = process_usagePercent memory;
          systemUsage = system_usagePercent memory
      in if processUsage > alertThresholds_memoryUsage * 100 then ''critical''
         else if systemUsage > alertThresholds_memoryUsage * 100 then ''warning''
         else if processUsage > 75 then ''warning''
         else ''healthy'')"

section \<open>Monitoring routes\<close>

text \<open>
  \<^verbatim>\<open>healthCheckMiddleware\<close> stores in \<^verbatim>\<open>req.healthCheck\<close> the result of
  \<^verbatim>\<open>performHealthCheck\<close>, or, when that call throws, an object with overall status
  \<^verbatim>\<open>error\<close> and no alerts.
\<close>

record HealthCheck =
  hc_overall :: string
  hc_components :: "(string \<times> HealthCheckResult) list option"
  hc_alerts :: "Alert list option"
  hc_error :: "string option"

fun healthCheckMiddleware :: "string + HealthResults \<Rightarrow> HealthCheck" where
  "healthCheckMiddleware (Inr results) =
     \<lparr>hc_overall = overall results, hc_components = Some (components results),
      hc_alerts = Some (alerts results), hc_error = None\<rparr>"
| "healthCheckMiddleware (Inl msg) =
     \<lparr>hc_overall = ''error'', hc_components = None, hc_alerts = None, hc_error = Some msg\<rparr>"

text \<open>\<^verbatim>\<open>GET /monitoring/health\<close>: the HTTP status and the \<^verbatim>\<open>success\<close> flag of the body.\<close>

record HealthResponse =
  http_status :: nat
  body_success :: bool
  health :: HealthCheck

definition health_route :: "HealthCheck \<Rightarrow> HealthResponse" where
  "health_route healthCheck =
     (let code = (if hc_overall healthCheck = ''warning'' then 200
                  else if hc_overall healthCheck = ''critical'' \<or>
                          hc_overall healthCheck = ''error'' then 503
                  else 200)
      in \<lparr>http_status = code, body_success = (hc_overall healthCheck \<noteq> ''error''),
          health = healthCheck\<rparr>)"

text \<open>
  \<^verbatim>\<open>GET /monitoring/alerts\<close>. The severity filter of the query string (missing or empty:
  no filter) applies to the health alerts only; the alerts of
  \<^verbatim>\<open>generatePerformanceAlerts\<close>, computed from process readings, are an input. The
  table \<^verbatim>\<open>severityOrder\<close> has an entry for each of the three severities, so the
  fallback \<^verbatim>\<open>|| 0\<close> of the comparator is never taken.
\<close>

fun severityOrder :: "AlertSeverity \<Rightarrow> int" where
  "severityOrder critical = 3"
| "severityOrder warning = 2"
| "severityOrder info = 1"

record AlertsBody =
  alerts_total :: nat
  alerts_critical :: nat
  alerts_warning :: nat
  alerts_info :: nat
  items :: "Alert list"

text \<open>The list \<^verbatim>\<open>alerts\<close> of the handler before it is sorted.\<close>

definition combined_alerts :: "HealthCheck \<Rightarrow> string option \<Rightarrow> Alert list \<Rightarrow> Alert list" where
  "combined_alerts healthCheck sev performanceAlerts =
     (let alerts0 = (case hc_alerts healthCheck of Some al \<Rightarrow> al | None \<Rightarrow> []);
          alerts1 = (case sev of
                       None \<Rightarrow> alerts0
                     | Some v \<Rightarrow> if v \<noteq> [] then filter (\<lambda>alert. severity_name (alert_severity alert) = v) alerts0
                                else alerts0)
      in alerts1 @ performanceAlerts)"

definition alerts_route :: "HealthCheck \<Rightarrow> string option \<Rightarrow> Alert list \<Rightarrow> AlertsBody" where
  "alerts_route healthCheck sev performanceAlerts =
     (let sorted_alerts =
            Array_sort (\<lambda>a b. severityOrder (alert_severity b) - severityOrder (alert_severity a))
                       (combined_alerts healthCheck sev performanceAlerts)
      in \<lparr>alerts_total = length sorted_alerts,
          alerts_critical = length (filter (\<lambda>a. alert_severity a = critical) sorted_alerts),
          alerts_warning = length (filter (\<lambda>a. alert_severity a = warning) sorted_alerts),
          alerts_info = length (filter (\<lambda>a. alert_severity a = info) sorted_alerts),
          items = sorted_alerts\<rparr>)"

section \<open>Dashboard metrics with bucketed history\<close>

text \<open>
  Source: \<^verbatim>\<open>GET /dashboard/metrics\<close> in \<^verbatim>\<open>src/routes/dashboard.js\<close>. Dates are their
  millisecond values. The handler reads the clock once (\<open>now\<close>), then queries the rows
  of the media table created at or after the threshold and the rows of the playlist
  table updated at or after it; each query yields its rows or \<^verbatim>\<open>null\<close>. Only the
  counts of the response that the history refers to are modelled.
\<close>

record MediaRow =
  created_at :: int

record PlaylistRow =
  updated_at :: int

record HistoryBucket =
  bucket_timestamp :: int
  bucket_mediaUploads :: nat
  bucket_playlistUpdates :: nat

record DashboardMetrics =
  timeRange :: string
  mediaUploads :: nat
  playlistUpdates :: nat
  history :: "HistoryBucket list option"

definition timeThreshold :: "int \<Rightarrow> string \<Rightarrow> int" where
  "timeThreshold now rng =
     (if rng = ''6h'' then now - 6 * 60 * 60 * 1000
      else if rng = ''24h'' then now - 24 * 60 * 60 * 1000
      else if rng = ''7d'' then now - 7 * 24 * 60 * 60 * 1000
      else now - 60 * 60 * 1000)"

definition bucketSize :: "string \<Rightarrow> int" where
  "bucketSize rng = (if rng = ''7d'' then 24 * 60 * 60 * 1000 else 60 * 60 * 1000)"

definition bucketCount :: "string \<Rightarrow> nat" where
  "bucketCount rng = (if rng = ''7d'' then 7 else if rng = ''24h'' then 24 else 6)"

text \<open>The bucket built in iteration \<open>i\<close> of the loop.\<close>

definition make_bucket ::
  "int \<Rightarrow> string \<Rightarrow> MediaRow list option \<Rightarrow> PlaylistRow list option \<Rightarrow> nat \<Rightarrow> HistoryBucket" where
  "make_bucket now rng mediaMetrics playlistMetrics i =
     (let bucketStart = now - (int i + 1) * bucketSize rng;
          bucketEnd = now - int i * bucketSize rng
      in \<lparr>bucket_timestamp = bucketStart,
          bucket_mediaUploads =
            (case mediaMetrics of
               None \<Rightarrow> 0
             | Some rows \<Rightarrow>
                 length (filter (\<lambda>m. created_at m \<ge> bucketStart \<and> created_at m < bucketEnd) rows)),
          bucket_playlistUpdates =
            (case playlistMetrics of
               None \<Rightarrow> 0
             | Some rows \<Rightarrow>
                 length (filter (\<lambda>p. updated_at p \<ge> bucketStart \<and> updated_at p < bucketEnd) rows))\<rparr>)"

text \<open>
  The loop \<^verbatim>\<open>for (let i = 0; i < bucketCount; i++)\<close>; each bucket is put in front of
  the array (\<^verbatim>\<open>unshift\<close>).
\<close>

function history_loop ::
  "int \<Rightarrow> string \<Rightarrow> MediaRow list option \<Rightarrow> PlaylistRow list option \<Rightarrow>
   nat \<Rightarrow> HistoryBucket list \<Rightarrow> HistoryBucket list" where
  "history_loop now rng mediaMetrics playlistMetrics i buckets =
     (if i < bucketCount rng
      then history_loop now rng mediaMetrics playlistMetrics (i + 1)
             (make_bucket now rng mediaMetrics playlistMetrics i # buckets)
      else buckets)"
  by pat_completeness auto
termination
  by (relation "measure (\<lambda>(now, rng, mediaMetrics, playlistMetrics, i, buckets).
                           bucketCount rng - i)") auto

declare history_loop.simps [simp del]

definition dashboard_metrics ::
  "int \<Rightarrow> string \<Rightarrow> bool \<Rightarrow> MediaRow list option \<Rightarrow> PlaylistRow list option \<Rightarrow>
   DashboardMetrics" where
  "dashboard_metrics now rng includeHistory mediaMetrics playlistMetrics =
     \<lparr>timeRange = rng,
      mediaUploads = (case mediaMetrics of None \<Rightarrow> 0 | Some rows \<Rightarrow> length rows),
      playlistUpdates = (case playlistMetrics of None \<Rightarrow> 0 | Some rows \<Rightarrow> length rows),
      history = (if includeHistory
                 then Some (history_loop now rng mediaMetrics playlistMetrics 0 [])
                 else None)\<rparr>"

text \<open>The history of a response; a response without history has no buckets.\<close>

definition history_buckets :: "DashboardMetrics \<Rightarrow> HistoryBucket list" where
  "history_buckets metrics = (case history metrics of None \<Rightarrow> [] | Some buckets \<Rightarrow> buckets)"

text \<open>
  Reference notions for the history: the time stamps of the rows a query returned (none
  for \<^verbatim>\<open>null\<close>), and the number of time stamps in a half-open interval.
\<close>

definition media_times :: "MediaRow list option \<Rightarrow> int list" where
  "media_times mediaMetrics =
     (case mediaMetrics of None \<Rightarrow> [] | Some rows \<Rightarrow> map created_at rows)"

definition playlist_times :: "PlaylistRow list option \<Rightarrow> int list" where
  "playlist_times playlistMetrics =
     (case playlistMetrics of None \<Rightarrow> [] | Some rows \<Rightarrow> map updated_at rows)"

definition count_between :: "int \<Rightarrow> int \<Rightarrow> int list \<Rightarrow> nat" where
  "count_between lo hi ts = length (filter (\<lambda>t. lo \<le> t \<and> t < hi) ts)"

section \<open>Endpoint-pattern normalization\<close>

text \<open>
  Source: \<^verbatim>\<open>getEndpointPattern\<close> in \<^verbatim>\<open>src/middleware/monitoring.js\<close>. The function takes
  any JavaScript string: a sequence of UTF-16 code units, which are numbers below 65536.
  \<open>units\<close> turns a literal of ASCII characters into its code units.
\<close>

definition units :: "string \<Rightarrow> nat list" where
  "units s = map of_char s"

definition slash :: nat where
  "slash = 47"

definition colon :: nat where
  "colon = 58"

definition dash :: nat where
  "dash = 45"

text \<open>\<^verbatim>\<open>\d\<close>, that is \<^verbatim>\<open>[0-9]\<close>\<close>

definition is_digit :: "nat \<Rightarrow> bool" where
  "is_digit u = (48 \<le> u \<and> u \<le> 57)"

definition is_upper :: "nat \<Rightarrow> bool" where
  "is_upper u = (65 \<le> u \<and> u \<le> 90)"

definition is_lower :: "nat \<Rightarrow> bool" where
  "is_lower u = (97 \<le> u \<and> u \<le> 122)"

text \<open>\<^verbatim>\<open>[a-zA-Z0-9]\<close>\<close>

definition is_alnum :: "nat \<Rightarrow> bool" where
  "is_alnum u = (is_lower u \<or> is_upper u \<or> is_digit u)"

text \<open>
  \<^verbatim>\<open>[0-9a-f]\<close> under the flag \<^verbatim>\<open>i\<close>. Without the flag \<^verbatim>\<open>u\<close> the engine compares
  upper-cased code units and never takes a code unit from 128 on for an ASCII one, so
  the class holds the ASCII digits and the letters a to f and A to F only.
\<close>

definition is_hex :: "nat \<Rightarrow> bool" where
  "is_hex u = (is_digit u \<or> (97 \<le> u \<and> u \<le> 102) \<or> (65 \<le> u \<and> u \<le> 70))"

text \<open>
  \<^verbatim>\<open>String.prototype.toLowerCase\<close> is the engine's Unicode case conversion, not code of
  the repository. It is modelled on the code units below 256, where the letters A to Z
  and the upper-case letters of the Latin-1 block (192 to 222 without the multiplication
  sign 215) move up by 32 and nothing else changes, and on the Kelvin sign U+212A, whose
  lower case is the letter k. A string with any other code unit is outside the model:
  its lower case is \<open>None\<close>.
\<close>

definition is_latin1_upper :: "nat \<Rightarrow> bool" where
  "is_latin1_upper u = (192 \<le> u \<and> u \<le> 222 \<and> u \<noteq> 215)"

definition toLowerCase_unit :: "nat \<Rightarrow> nat option" where
  "toLowerCase_unit u =
     (if u < 256 then Some (if is_upper u \<or> is_latin1_upper u then u + 32 else u)
      else if u = 0x212A then Some 0x6B
      else None)"

definition toLowerCase :: "nat list \<Rightarrow> nat list option" where
  "toLowerCase s = those (map toLowerCase_unit s)"

text \<open>
  \<^verbatim>\<open>s.replace(re, replacement)\<close> for a global regular expression whose matches are
  never empty. The matcher tells how many code units the expression matches at the
  start of a string (\<open>None\<close>: no match there). The scan goes left to right; after a match
  it continues behind the match, otherwise one code unit further.
\<close>

fun replace_global :: "(nat list \<Rightarrow> nat option) \<Rightarrow> nat list \<Rightarrow> nat list \<Rightarrow> nat list" where
  "replace_global matcher replacement [] = []"
| "replace_global matcher replacement (c # cs) =
     (case matcher (c # cs) of
        None \<Rightarrow> c # replace_global matcher replacement cs
      | Some n \<Rightarrow> replacement @ replace_global matcher replacement (drop (n - 1) cs))"

text \<open>
  A run of single-character classes, as in \<^verbatim>\<open>[0-9a-f]{8}-\<close>: the string starts with
  one code unit of each class of the pattern, in order.
\<close>

definition is_dash :: "nat \<Rightarrow> bool" where
  "is_dash u = (u = dash)"

definition match_classes :: "(nat \<Rightarrow> bool) list \<Rightarrow> nat list \<Rightarrow> bool" where
  "match_classes pat s =
     (length pat \<le> length s \<and> list_all2 (\<lambda>P c. P c) pat (take (length pat) s))"

text \<open>
  \<^verbatim>\<open>/\/[0-9a-f]{8}-[0-9a-f]{4}-[0-9a-f]{4}-[0-9a-f]{4}-[0-9a-f]{12}/gi\<close>: a slash and
  36 code units.
\<close>

definition uuid_pattern :: "(nat \<Rightarrow> bool) list" where
  "uuid_pattern =
     replicate 8 is_hex @ [is_dash] @ replicate 4 is_hex @ [is_dash] @
     replicate 4 is_hex @ [is_dash] @ replicate 4 is_hex @ [is_dash] @ replicate 12 is_hex"

definition match_uuid :: "nat list \<Rightarrow> nat option" where
  "match_uuid s =
     (case s of
        [] \<Rightarrow> None
      | c # cs \<Rightarrow>
          if c = slash \<and> match_classes uuid_pattern cs
          then Some (1 + length uuid_pattern) else None)"

text \<open>\<^verbatim>\<open>/\/\d+/g\<close>: a slash and the longest run of digits, at least one.\<close>

definition match_numeric :: "nat list \<Rightarrow> nat option" where
  "match_numeric s =
     (case s of
        [] \<Rightarrow> None
      | c # cs \<Rightarrow>
          if c = slash \<and> length (takeWhile is_digit cs) \<ge> 1
          then Some (1 + length (takeWhile is_digit cs)) else None)"

text \<open>\<^verbatim>\<open>/\/[a-zA-Z0-9]{8,}/g\<close>: a slash and the longest run of letters and digits, at least eight.\<close>

definition match_code :: "nat list \<Rightarrow> nat option" where
  "match_code s =
     (case s of
        [] \<Rightarrow> None
      | c # cs \<Rightarrow>
          if c = slash \<and> length (takeWhile is_alnum cs) \<ge> 8
          then Some (1 + length (takeWhile is_alnum cs)) else None)"

text \<open>
  The three replacements, in the order of the source, before the result is lower-cased.
\<close>

definition replace_segments :: "nat list \<Rightarrow> nat list" where
  "replace_segments path =
     replace_global match_code (units ''/:code'')
       (replace_global match_numeric (units ''/:id'')
         (replace_global match_uuid (units ''/:id'') path))"

text \<open>
  \<^verbatim>\<open>!path\<close> holds of the empty string; the values \<^verbatim>\<open>undefined\<close> and \<^verbatim>\<open>null\<close>, which are
  not strings, take the same branch. The function itself never fails: its result is
  \<open>None\<close> exactly when the lower case of the replaced string is outside the model of
  \<^verbatim>\<open>toLowerCase\<close> above.
\<close>

definition getEndpointPattern :: "nat list \<Rightarrow> nat list option" where
  "getEndpointPattern path =
     (if path = [] then Some (units ''unknown'')
      else toLowerCase (replace_segments path))"

subsection \<open>Paths of code units below 256 and letter case\<close>

text \<open>
  A path is narrow when all its code units are below 256: the ASCII paths and those
  with Latin-1 characters.
\<close>

definition narrow :: "nat list \<Rightarrow> bool" where
  "narrow s = list_all (\<lambda>u. u < 256) s"

text \<open>
  Letter case, stated without reference to \<^verbatim>\<open>toLowerCase\<close>: below 256 the two cases of a
  letter are the code units \<open>u\<close> and \<open>u + 32\<close> for \<open>u\<close> from A to Z or an upper-case letter
  of the Latin-1 block. Two strings differ only in letter case when they have the same
  length and at every position hold the same code unit or the two cases of one letter.
\<close>

definition cases_of_letter :: "nat \<Rightarrow> nat \<Rightarrow> bool" where
  "cases_of_letter u v =
     ((65 \<le> u \<and> u \<le> 90 \<or> 192 \<le> u \<and> u \<le> 222 \<and> u \<noteq> 215) \<and> v = u + 32)"

definition same_letter :: "nat \<Rightarrow> nat \<Rightarrow> bool" where
  "same_letter u v = (u = v \<or> cases_of_letter u v \<or> cases_of_letter v u)"

definition differ_only_in_case :: "nat list \<Rightarrow> nat list \<Rightarrow> bool" where
  "differ_only_in_case p q = list_all2 same_letter p q"

subsection \<open>Notions for reasoning about the normalization\<close>

text \<open>Lower-casing of the code units below 256, as a total function.\<close>

definition lower_narrow :: "nat \<Rightarrow> nat" where
  "lower_narrow u = (if is_upper u \<or> is_latin1_upper u then u + 32 else u)"

definition lower_string :: "nat list \<Rightarrow> nat list" where
  "lower_string s = map lower_narrow s"

text \<open>
  A path is an initial stretch without a slash followed by segments, each a slash and a
  body without a slash. \<open>map_segments p g\<close> applies \<open>p\<close> to the code units of the initial
  stretch and \<open>g\<close> to the body of every segment.
\<close>

definition nonslash :: "nat \<Rightarrow> bool" where
  "nonslash u = (u \<noteq> slash)"

function map_segments :: "(nat \<Rightarrow> nat) \<Rightarrow> (nat list \<Rightarrow> nat list) \<Rightarrow> nat list \<Rightarrow> nat list" where
  "map_segments p g [] = []"
| "map_segments p g (c # cs) =
     (if c = slash
      then c # g (takeWhile nonslash cs) @ map_segments p g (dropWhile nonslash cs)
      else p c # map_segments p g cs)"
  by pat_completeness auto
termination
  by (relation "measure (\<lambda>(p, g, s). length s)")
     (auto simp: le_imp_less_Suc length_dropWhile_le)

text \<open>
  What a replacement does to the body of a segment: a match at the segment's slash
  replaces the slash and the matched part of the body by the replacement, written here
  without its leading slash.
\<close>

definition replace_body :: "(nat list \<Rightarrow> nat option) \<Rightarrow> nat list \<Rightarrow> nat list \<Rightarrow> nat list" where
  "replace_body matcher r b =
     (case matcher (slash # b) of None \<Rightarrow> b | Some n \<Rightarrow> r @ drop (n - 1) b)"

text \<open>What the normalization makes of the body of a segment of a narrow path.\<close>

definition normalize_body :: "nat list \<Rightarrow> nat list" where
  "normalize_body b =
     lower_string
       (replace_body match_code (units '':code'')
         (replace_body match_numeric (units '':id'')
           (replace_body match_uuid (units '':id'') b)))"

text \<open>
  The properties of the three expressions that the reasoning uses: a match starts at a
  slash, is not empty and ends before the next slash; whether and how far a slash
  matches depends on its segment only, and not on the case of the letters below 256;
  and a segment whose body starts with a colon does not match.
\<close>

definition segment_matcher :: "(nat list \<Rightarrow> nat option) \<Rightarrow> bool" where
  "segment_matcher m \<longleftrightarrow>
     (\<forall>s n. m s = Some n \<longrightarrow>
        (\<exists>cs. s = slash # cs \<and> 1 \<le> n \<and> n - 1 \<le> length (takeWhile nonslash cs))) \<and>
     (\<forall>cs. m (slash # cs) = m (slash # takeWhile nonslash cs)) \<and>
     (\<forall>s t. lower_string s = lower_string t \<longrightarrow> m s = m t) \<and>
     (\<forall>cs. m (slash # colon # cs) = None)"

section \<open>Properties of the metric stores\<close>

lemma Map_get_set: "Map_get (Map_set m k v) k' = (if k' = k then Some v else Map_get m k')"
  by (induction m) auto

lemma Map_keys_set:
  "Map_keys (Map_set m k v) = (if k \<in> set (Map_keys m) then Map_keys m else Map_keys m @ [k])"
proof (induction m)
  case Nil
  then show ?case by (simp add: Map_keys_def)
next
  case (Cons p m)
  then show ?case by (cases p) (simp add: Map_keys_def)
qed

lemma Map_has_keys: "Map_has m k \<longleftrightarrow> k \<in> set (Map_keys m)"
  by (induction m) (auto simp: Map_has_def Map_keys_def)

lemma lastn_length: "length (lastn n xs) \<le> n"
  by (simp add: lastn_def)

lemma lastn_id: "length xs \<le> n \<Longrightarrow> lastn n xs = xs"
  by (simp add: lastn_def)

lemma lastn_append: "lastn n (lastn n xs @ ys) = lastn n (xs @ ys)"
proof (cases "length ys \<le> n")
  case True
  have "length xs + length ys - (length xs - n + n) + (length xs - n) =
        length xs + length ys - n"
    using True by arith
  with True show ?thesis by (simp add: lastn_def)
next
  case False
  then show ?thesis by (simp add: lastn_def)
qed

lemma request_log_recordRequest:
  "request_log (recordRequest now endpoint meth code rtime uid s) k =
     (if k = meth @ '':'' @ endpoint
      then lastn 1000 (request_log s k @
             [\<lparr>timestamp = now, statusCode = code, responseTime = rtime,
               userId = uid, success = (code \<ge> 200 \<and> code < 400)\<rparr>])
      else request_log s k)"
  by (auto simp: recordRequest_def request_log_def Let_def Map_get_set Map_has_def
                 lastn_def splice0_def split: option.splits)

lemma error_log_recordRequest:
  "error_log (recordRequest now endpoint meth code rtime uid s) k = error_log s k"
  by (simp add: recordRequest_def error_log_def Let_def)

lemma error_log_recordError:
  "error_log (recordError now error ctx s) k =
     (if k = (if name error \<noteq> [] then name error else ''UnknownError'')
      then lastn 500 (error_log s k @
             [\<lparr>err_timestamp = now, err_message = message error, err_stack = stack error,
               err_context = ctx, severity = getErrorSeverity error\<rparr>])
      else error_log s k)"
  by (auto simp: recordError_def error_log_def Let_def Map_get_set Map_has_def
                 lastn_def splice0_def split: option.splits)

lemma request_log_recordError:
  "request_log (recordError now error ctx s) k = request_log s k"
  by (simp add: recordError_def request_log_def Let_def)

lemma request_log_run:
  "length (request_log s k) \<le> 1000 \<Longrightarrow>
   request_log (run cs s) k = lastn 1000 (request_log s k @ requests_to k cs)"
proof (induction cs arbitrary: s)
  case Nil
  then show ?case by (simp add: run_def lastn_id)
next
  case (Cons c cs)
  have step: "run (c # cs) s = run cs (exec c s)"
    by (simp add: run_def)
  show ?case
  proof (cases c)
    case (RecordRequest now endpoint meth code rtime uid)
    have bound: "length (request_log (exec c s) k) \<le> 1000"
      using Cons.prems RecordRequest
      by (simp add: request_log_recordRequest lastn_length)
    show ?thesis
      unfolding step Cons.IH [OF bound]
      using RecordRequest Cons.prems
      by (simp add: request_log_recordRequest lastn_append)
  next
    case (RecordError now error ctx)
    have bound: "length (request_log (exec c s) k) \<le> 1000"
      using Cons.prems RecordError by (simp add: request_log_recordError)
    show ?thesis
      unfolding step Cons.IH [OF bound]
      using RecordError by (simp add: request_log_recordError)
  qed
qed

lemma error_log_run:
  "length (error_log s k) \<le> 500 \<Longrightarrow>
   error_log (run cs s) k = lastn 500 (error_log s k @ errors_of k cs)"
proof (induction cs arbitrary: s)
  case Nil
  then show ?case by (simp add: run_def lastn_id)
next
  case (Cons c cs)
  have step: "run (c # cs) s = run cs (exec c s)"
    by (simp add: run_def)
  show ?case
  proof (cases c)
    case (RecordRequest now endpoint meth code rtime uid)
    have bound: "length (error_log (exec c s) k) \<le> 500"
      using Cons.prems RecordRequest by (simp add: error_log_recordRequest)
    show ?thesis
      unfolding step Cons.IH [OF bound]
      using RecordRequest by (simp add: error_log_recordRequest)
  next
    case (RecordError now error ctx)
    have bound: "length (error_log (exec c s) k) \<le> 500"
      using Cons.prems RecordError
      by (simp add: error_log_recordError lastn_length)
    show ?thesis
      unfolding step Cons.IH [OF bound]
      using RecordError Cons.prems
      by (simp add: error_log_recordError lastn_append)
  qed
qed

lemma distinct_Map_set: "distinct (Map_keys m) \<Longrightarrow> distinct (Map_keys (Map_set m k v))"
  by (simp add: Map_keys_set)

lemma Map_keys_map: "Map_keys (map (\<lambda>(k, v). (k, f k v)) m) = Map_keys m"
  by (induction m) (auto simp: Map_keys_def)

lemma reachable_distinct:
  "reachable s \<Longrightarrow> distinct (Map_keys (requests s)) \<and> distinct (Map_keys (errors s))"
proof (induction rule: reachable.induct)
  case (constructed now)
  then show ?case by (simp add: new_MonitoringService_def Map_keys_def)
next
  case (recorded_request s now endpoint meth code rtime uid)
  then show ?case by (simp add: recordRequest_def Let_def distinct_Map_set)
next
  case (recorded_error s now error ctx)
  then show ?case by (simp add: recordError_def Let_def distinct_Map_set)
next
  case (cleaned s now)
  then show ?case by (simp add: cleanOldMetrics_def Let_def Map_keys_map)
next
  case (sampled s snapshot_keys)
  then show ?case by simp
qed

lemma Map_get_map:
  "Map_get (map (\<lambda>(k, v). (k, f v)) m) k = map_option f (Map_get m k)"
  by (induction m) auto

lemma reachable_bounded:
  "reachable s \<Longrightarrow> length (request_log s k) \<le> 1000 \<and> length (error_log s e) \<le> 500"
proof (induction arbitrary: k e rule: reachable.induct)
  case (constructed now)
  then show ?case by (simp add: new_MonitoringService_def request_log_def error_log_def)
next
  case (recorded_request s now endpoint meth code rtime uid)
  then show ?case
    by (simp add: request_log_recordRequest error_log_recordRequest lastn_length)
next
  case (recorded_error s now error ctx)
  then show ?case
    by (simp add: request_log_recordError error_log_recordError lastn_length)
next
  case (cleaned s now)
  have "length (request_log (cleanOldMetrics now s) k) \<le> length (request_log s k)"
    by (simp add: cleanOldMetrics_def Let_def request_log_def Map_get_map split: option.splits)
  moreover have "length (error_log (cleanOldMetrics now s) e) \<le> length (error_log s e)"
    by (simp add: cleanOldMetrics_def Let_def error_log_def Map_get_map split: option.splits)
  ultimately show ?case using cleaned.IH [of k e] by simp
next
  case (sampled s snapshot_keys)
  then show ?case by (simp add: request_log_def error_log_def)
qed

text \<open>
  Claim C1. Whatever state the service has reached and whatever recording calls follow,
  the request log of every key holds at most 1000 records and is exactly the last 1000,
  in insertion order, of what it held followed by the records the calls filed under the
  key; the error log of every kind holds at most 500 records and is exactly the last 500
  of what it held followed by the errors of that kind, so the oldest records are the
  ones dropped.
\<close>

theorem bounded_logs:
  assumes "reachable s"
  shows "length (request_log (run cs s) k) \<le> 1000 \<and>
         request_log (run cs s) k = lastn 1000 (request_log s k @ requests_to k cs) \<and>
         length (error_log (run cs s) e) \<le> 500 \<and>
         error_log (run cs s) e = lastn 500 (error_log s e @ errors_of e cs)"
proof -
  from assms have b: "length (request_log s k) \<le> 1000" "length (error_log s e) \<le> 500"
    using reachable_bounded by blast+
  show ?thesis
    using request_log_run [OF b(1), of cs] error_log_run [OF b(2), of cs]
    by (simp add: lastn_length)
qed

lemma requests_to_map:
  "requests_to k (map (\<lambda>i. RecordRequest (t i) endpoint meth code rtime uid) xs) =
     (if meth @ '':'' @ endpoint = k
      then map (\<lambda>i. \<lparr>timestamp = t i, statusCode = code, responseTime = rtime,
                      userId = uid, success = (code \<ge> 200 \<and> code < 400)\<rparr>) xs
      else [])"
  by (induction xs) auto

lemma errors_of_map:
  "errors_of k (map (\<lambda>i. RecordRequest (t i) endpoint meth code rtime uid) xs) = []"
  by (induction xs) auto

lemma logs_new:
  "request_log (new_MonitoringService t) k = []" "error_log (new_MonitoringService t) e = []"
  by (simp_all add: new_MonitoringService_def request_log_def error_log_def)

text \<open>
  A fresh service receives 1001 requests for one endpoint, stamped 0 to 1000: the log
  holds the 1000 records stamped 1 to 1000.
\<close>

theorem bounded_logs_witness:
  "reachable (new_MonitoringService 0) \<and>
   request_log (run (map (\<lambda>i. RecordRequest (int i) ''/screens/:id'' ''GET'' 200 5 None)
                         [0..<1001])
                    (new_MonitoringService 0)) ''GET:/screens/:id'' =
     map (\<lambda>i. \<lparr>timestamp = int i, statusCode = 200, responseTime = 5,
                 userId = None, success = True\<rparr>) [1..<1001]"
  using bounded_logs [OF constructed, of
      "map (\<lambda>i. RecordRequest (int i) ''/screens/:id'' ''GET'' 200 5 None) [0..<1001]"
      0 "''GET:/screens/:id''" "''HTTPError''"]
  by (simp add: requests_to_map constructed logs_new lastn_def drop_map)

subsection \<open>Statistics\<close>

lemma requests_run_keys:
  "set (Map_keys (requests (run cs s))) =
     set (Map_keys (requests s)) \<union> {k. \<exists>c \<in> set cs. request_key c = Some k}"
proof (induction cs arbitrary: s)
  case Nil
  then show ?case by (simp add: run_def)
next
  case (Cons c cs)
  have step: "run (c # cs) s = run cs (exec c s)"
    by (simp add: run_def)
  show ?case
  proof (cases c)
    case (RecordRequest now endpoint meth code rtime uid)
    then have "set (Map_keys (requests (exec c s))) =
                 insert (meth @ '':'' @ endpoint) (set (Map_keys (requests s)))"
      by (auto simp: recordRequest_def Let_def Map_keys_set Map_has_keys)
    then show ?thesis
      unfolding step Cons.IH using RecordRequest by auto
  next
    case (RecordError now error ctx)
    then have "requests (exec c s) = requests s"
      by (simp add: recordError_def Let_def)
    then show ?thesis
      unfolding step Cons.IH using RecordError by auto
  qed
qed

lemma reachable_run: "reachable s \<Longrightarrow> reachable (run cs s)"
proof (induction cs arbitrary: s)
  case Nil
  then show ?case by (simp add: run_def)
next
  case (Cons c cs)
  have "reachable (exec c s)"
    using Cons.prems by (cases c) (simp_all add: reachable.intros)
  then have "reachable (run cs (exec c s))" by (rule Cons.IH)
  then show ?case by (simp add: run_def)
qed

lemma Map_size_distinct: "distinct (Map_keys m) \<Longrightarrow> Map_size m = card (set (Map_keys m))"
proof -
  assume "distinct (Map_keys m)"
  then have "card (set (Map_keys m)) = length (Map_keys m)"
    by (rule distinct_card)
  then show ?thesis by (simp add: Map_size_def Map_keys_def)
qed

text \<open>
  Claim C10. In every state the service can reach, the \<^verbatim>\<open>requests\<close> and \<^verbatim>\<open>errors\<close>
  fields of \<^verbatim>\<open>getStats\<close> are the numbers of distinct endpoint keys and of distinct error
  kinds present in the two maps, not numbers of records: after any positive number of
  \<^verbatim>\<open>recordRequest\<close> calls on a fresh service that all file under one key, the field
  \<^verbatim>\<open>requests\<close> is 1, while the log under that key holds one record per call, up to
  its cap.
\<close>

theorem getStats_counts_keys:
  assumes "reachable s"
  shows "stats_requests (getStats now s) = card (set (Map_keys (requests s))) \<and>
         stats_errors (getStats now s) = card (set (Map_keys (errors s))) \<and>
         (cs \<noteq> [] \<and> (\<forall>c \<in> set cs. request_key c = Some k) \<longrightarrow>
            stats_requests (getStats now (run cs (new_MonitoringService t0))) = 1 \<and>
            length (request_log (run cs (new_MonitoringService t0)) k) = min 1000 (length cs))"
proof -
  have d: "distinct (Map_keys (requests s))" "distinct (Map_keys (errors s))"
    using assms reachable_distinct by blast+
  have one: "stats_requests (getStats now (run cs (new_MonitoringService t0))) = 1 \<and>
             length (request_log (run cs (new_MonitoringService t0)) k) = min 1000 (length cs)"
    if ne: "cs \<noteq> []" and all: "\<forall>c \<in> set cs. request_key c = Some k"
  proof -
    let ?s = "run cs (new_MonitoringService t0)"
    have r: "reachable ?s" by (rule reachable_run) (rule constructed)
    have "{k'. \<exists>c \<in> set cs. request_key c = Some k'} = {k}"
      using ne all by (cases cs) auto
    moreover have "Map_keys (requests (new_MonitoringService t0)) = []"
      by (simp add: new_MonitoringService_def Map_keys_def)
    ultimately have "set (Map_keys (requests ?s)) = {k}"
      by (simp add: requests_run_keys)
    moreover have "distinct (Map_keys (requests ?s))"
      using r reachable_distinct by blast
    ultimately have "Map_size (requests ?s) = 1"
      by (simp add: Map_size_distinct)
    then have a: "stats_requests (getStats now ?s) = 1"
      by (simp add: getStats_def)
    have "length (requests_to k cs) = length cs"
      using all
    proof (induction cs)
      case Nil
      then show ?case by simp
    next
      case (Cons c cs)
      then show ?case by (cases c) auto
    qed
    then have b: "length (request_log ?s k) = min 1000 (length cs)"
      using request_log_run [of "new_MonitoringService t0" k cs]
      by (simp add: logs_new lastn_def)
    from a b show ?thesis by simp
  qed
  show ?thesis
    using d one by (auto simp: getStats_def Map_size_distinct)
qed

text \<open>Three requests for one endpoint on a fresh service: one key, three records.\<close>

theorem getStats_counts_keys_witness:
  "reachable (new_MonitoringService 0) \<and>
   stats_requests (getStats 9 (run [RecordRequest 1 ''/screens/:id'' ''GET'' 200 5 None,
                                    RecordRequest 2 ''/screens/:id'' ''GET'' 404 7 None,
                                    RecordRequest 3 ''/screens/:id'' ''GET'' 200 6 None]
                                   (new_MonitoringService 0))) = 1 \<and>
   length (request_log (run [RecordRequest 1 ''/screens/:id'' ''GET'' 200 5 None,
                             RecordRequest 2 ''/screens/:id'' ''GET'' 404 7 None,
                             RecordRequest 3 ''/screens/:id'' ''GET'' 200 6 None]
                            (new_MonitoringService 0)) ''GET:/screens/:id'') = 3"
  using getStats_counts_keys [OF constructed, of 9 0
      "[RecordRequest 1 ''/screens/:id'' ''GET'' 200 5 None,
        RecordRequest 2 ''/screens/:id'' ''GET'' 404 7 None,
        RecordRequest 3 ''/screens/:id'' ''GET'' 200 6 None]" "''GET:/screens/:id''" 0]
  by (simp add: constructed)

section \<open>Properties of the health evaluation\<close>

lemma status_rank_cases:
  "status_rank st = 2 \<longleftrightarrow> st = ''critical'' \<or> st = ''error''"
  "status_rank st = 1 \<longleftrightarrow> st = ''warning''"
  "status_rank st = 0 \<longleftrightarrow> st \<noteq> ''critical'' \<and> st \<noteq> ''error'' \<and> st \<noteq> ''warning''"
  "status_rank st \<le> 2"
  by (simp_all add: status_rank_def)

lemma overall_health_step:
  assumes "overall r \<in> {''healthy'', ''warning'', ''critical''}"
  shows "overall (health_step r c) \<in> {''healthy'', ''warning'', ''critical''} \<and>
         status_rank (overall (health_step r c)) =
           max (status_rank (component_status c)) (status_rank (overall r))"
proof (cases c)
  case (Pair cname outcome)
  show ?thesis
  proof (cases outcome)
    case (Returned result)
    consider "status result = ''critical'' \<or> status result = ''error''"
      | "status result = ''warning''"
      | "status result \<noteq> ''critical''" "status result \<noteq> ''error''" "status result \<noteq> ''warning''"
      by blast
    then show ?thesis
    proof cases
      case 1
      then show ?thesis using assms Pair Returned
        by (auto simp: status_rank_def Let_def)
    next
      case 2
      then show ?thesis using assms Pair Returned
        by (auto simp: status_rank_def Let_def)
    next
      case 3
      then show ?thesis using assms Pair Returned
        by (auto simp: status_rank_def Let_def)
    qed
  next
    case (Threw msg)
    then show ?thesis using assms Pair
      by (auto simp: status_rank_def)
  qed
qed

lemma overall_foldl:
  assumes "overall r \<in> {''healthy'', ''warning'', ''critical''}"
  shows "overall (foldl health_step r cs) \<in> {''healthy'', ''warning'', ''critical''} \<and>
         status_rank (overall (foldl health_step r cs)) =
           fold max (map status_rank (map component_status cs)) (status_rank (overall r))"
  using assms
proof (induction cs arbitrary: r)
  case Nil
  then show ?case by simp
next
  case (Cons c cs)
  from overall_health_step [OF Cons.prems, of c]
  have m: "overall (health_step r c) \<in> {''healthy'', ''warning'', ''critical''}"
    and k: "status_rank (overall (health_step r c)) =
              max (status_rank (component_status c)) (status_rank (overall r))"
    by blast+
  from Cons.IH [OF m] show ?case by (simp add: k)
qed

lemma overall_performHealthCheck:
  "overall (performHealthCheck checks) \<in> {''healthy'', ''warning'', ''critical''}"
  "status_rank (overall (performHealthCheck checks)) = worst_rank (map component_status checks)"
  using overall_foldl [of "\<lparr>overall = ''healthy'', components = [], alerts = []\<rparr>" checks]
  by (simp_all add: performHealthCheck_def worst_rank_def status_rank_def)

lemma worst_rank_Max: "worst_rank sts = Max (set (0 # map status_rank sts))"
  by (simp only: worst_rank_def Max.set_eq_fold)

lemma worst_rank_2:
  "worst_rank sts = 2 \<longleftrightarrow> (\<exists>st \<in> set sts. st = ''critical'' \<or> st = ''error'')"
proof -
  have "worst_rank sts = 2 \<longleftrightarrow> (\<exists>st \<in> set sts. status_rank st = 2)"
  proof
    assume "worst_rank sts = 2"
    then have "2 \<in> set (0 # map status_rank sts)"
      unfolding worst_rank_Max by (metis Max_in List.finite_set set_empty list.distinct(1))
    then show "\<exists>st \<in> set sts. status_rank st = 2" by auto
  next
    assume "\<exists>st \<in> set sts. status_rank st = 2"
    then have "2 \<in> set (0 # map status_rank sts)" by force
    moreover have "\<forall>x \<in> set (0 # map status_rank sts). x \<le> 2"
      by (auto simp: status_rank_cases)
    ultimately show "worst_rank sts = 2"
      unfolding worst_rank_Max by (meson List.finite_set Max_eqI)
  qed
  then show ?thesis by (simp add: status_rank_cases)
qed

lemma worst_rank_0:
  "worst_rank sts = 0 \<longleftrightarrow> (\<forall>st \<in> set sts. status_rank st = 0)"
proof -
  have "worst_rank sts = 0 \<longleftrightarrow> (\<forall>x \<in> set (0 # map status_rank sts). x \<le> 0)"
    unfolding worst_rank_Max by (subst Max_le_iff [symmetric]) auto
  then show ?thesis by auto
qed

lemma overall_critical_iff:
  "overall (performHealthCheck checks) = ''critical'' \<longleftrightarrow>
     (\<exists>c \<in> set checks. component_status c = ''critical'' \<or> component_status c = ''error'')"
proof -
  let ?o = "overall (performHealthCheck checks)"
  have "?o = ''critical'' \<longleftrightarrow> status_rank ?o = 2"
    using overall_performHealthCheck(1) [of checks] by (auto simp: status_rank_def)
  also have "\<dots> \<longleftrightarrow> worst_rank (map component_status checks) = 2"
    by (simp only: overall_performHealthCheck(2))
  also have "\<dots> \<longleftrightarrow>
     (\<exists>c \<in> set checks. component_status c = ''critical'' \<or> component_status c = ''error'')"
    unfolding worst_rank_2 by simp
  finally show ?thesis .
qed

text \<open>
  Claim C2. For every list of check outcomes, the overall status computed by
  \<^verbatim>\<open>performHealthCheck\<close> is the worst component status under the order error/critical
  above warning above healthy: it is one of healthy, warning and critical, its rank is
  the greatest rank among the components, it is critical exactly when some component is
  critical or in error (a check that throws counts as an error), warning exactly when
  some component warns and none is critical or in error, and healthy exactly when no
  component is critical, in error or warning.
\<close>

theorem overall_is_worst:
  "overall (performHealthCheck checks) \<in> {''healthy'', ''warning'', ''critical''} \<and>
   status_rank (overall (performHealthCheck checks)) =
     worst_rank (map component_status checks) \<and>
   (overall (performHealthCheck checks) = ''critical'' \<longleftrightarrow>
      (\<exists>c \<in> set checks. component_status c = ''critical'' \<or> component_status c = ''error'')) \<and>
   (overall (performHealthCheck checks) = ''warning'' \<longleftrightarrow>
      (\<exists>c \<in> set checks. component_status c = ''warning'') \<and>
      (\<forall>c \<in> set checks. component_status c \<noteq> ''critical'' \<and> component_status c \<noteq> ''error'')) \<and>
   (overall (performHealthCheck checks) = ''healthy'' \<longleftrightarrow>
      (\<forall>c \<in> set checks. component_status c \<noteq> ''critical'' \<and> component_status c \<noteq> ''error'' \<and>
                          component_status c \<noteq> ''warning''))"
proof -
  let ?o = "overall (performHealthCheck checks)"
  let ?sts = "map component_status checks"
  have m: "?o \<in> {''healthy'', ''warning'', ''critical''}"
    and r: "status_rank ?o = worst_rank ?sts"
    by (rule overall_performHealthCheck)+
  have h: "?o = ''healthy'' \<longleftrightarrow> worst_rank ?sts = 0"
    using m r [symmetric] by (auto simp: status_rank_def)
  have w: "?o = ''warning'' \<longleftrightarrow> ?o \<noteq> ''critical'' \<and> ?o \<noteq> ''healthy''"
    using m by auto
  have c': "?o = ''critical'' \<longleftrightarrow>
      (\<exists>c \<in> set checks. component_status c = ''critical'' \<or> component_status c = ''error'')"
    by (rule overall_critical_iff)
  have h': "?o = ''healthy'' \<longleftrightarrow>
      (\<forall>c \<in> set checks. component_status c \<noteq> ''critical'' \<and> component_status c \<noteq> ''error'' \<and>
                          component_status c \<noteq> ''warning'')"
    unfolding h worst_rank_0 by (simp add: status_rank_cases)
  have w': "?o = ''warning'' \<longleftrightarrow>
      (\<exists>c \<in> set checks. component_status c = ''warning'') \<and>
      (\<forall>c \<in> set checks. component_status c \<noteq> ''critical'' \<and> component_status c \<noteq> ''error'')"
    unfolding w c' h' by blast
  from m r c' w' h' show ?thesis by blast
qed

text \<open>
  The two examples of the specification: healthy, warning, healthy gives warning; an
  error among the components gives critical.
\<close>

theorem overall_is_worst_witness:
  "overall (performHealthCheck
     [(''database'', Returned \<lparr>status = ''healthy'', check_message = Some ''Database responsive'', error_flag = False\<rparr>),
      (''storage'', Returned \<lparr>status = ''warning'', check_message = Some ''Media bucket not found'', error_flag = False\<rparr>),
      (''memory'', Returned \<lparr>status = ''healthy'', check_message = Some ''Memory usage normal'', error_flag = False\<rparr>)])
   = ''warning'' \<and>
   overall (performHealthCheck
     [(''database'', Returned \<lparr>status = ''error'', check_message = Some ''Database error'', error_flag = True\<rparr>),
      (''storage'', Returned \<lparr>status = ''warning'', check_message = None, error_flag = False\<rparr>),
      (''disk'', Threw ''EACCES'')])
   = ''critical''"
proof -
  let ?a = "[(''database'', Returned \<lparr>status = ''healthy'', check_message = Some ''Database responsive'', error_flag = False\<rparr>),
      (''storage'', Returned \<lparr>status = ''warning'', check_message = Some ''Media bucket not found'', error_flag = False\<rparr>),
      (''memory'', Returned \<lparr>status = ''healthy'', check_message = Some ''Memory usage normal'', error_flag = False\<rparr>)]"
  let ?b = "[(''database'', Returned \<lparr>status = ''error'', check_message = Some ''Database error'', error_flag = True\<rparr>),
      (''storage'', Returned \<lparr>status = ''warning'', check_message = None, error_flag = False\<rparr>),
      (''disk'', Threw ''EACCES'')]"
  have "(\<exists>c \<in> set ?a. component_status c = ''warning'') \<and>
        (\<forall>c \<in> set ?a. component_status c \<noteq> ''critical'' \<and> component_status c \<noteq> ''error'')"
    by simp
  then have 1: "overall (performHealthCheck ?a) = ''warning''"
    using overall_is_worst [of ?a] by blast
  have "\<exists>c \<in> set ?b. component_status c = ''critical'' \<or> component_status c = ''error''"
    by simp
  then have 2: "overall (performHealthCheck ?b) = ''critical''"
    using overall_is_worst [of ?b] by blast
  from 1 2 show ?thesis by blast
qed

text \<open>
  Claim C3. The health endpoint answers 503 exactly when the overall status is critical
  or error and 200 in every other case, warning included. The overall status is error
  when \<^verbatim>\<open>performHealthCheck\<close> itself throws; otherwise the answer is 503 exactly when
  a component is critical or in error.
\<close>

theorem health_status_code:
  "(http_status (health_route hc) = 503 \<longleftrightarrow>
      hc_overall hc = ''critical'' \<or> hc_overall hc = ''error'') \<and>
   (http_status (health_route hc) = 200 \<longleftrightarrow>
      \<not> (hc_overall hc = ''critical'' \<or> hc_overall hc = ''error'')) \<and>
   http_status (health_route (healthCheckMiddleware (Inl msg))) = 503 \<and>
   http_status (health_route (healthCheckMiddleware (Inr (performHealthCheck checks)))) =
     (if \<exists>c \<in> set checks. component_status c = ''critical'' \<or> component_status c = ''error''
      then 503 else 200)"
proof -
  have a: "http_status (health_route h) =
             (if hc_overall h = ''critical'' \<or> hc_overall h = ''error'' then 503 else 200)" for h
    by (simp add: health_route_def)
  have m: "overall (performHealthCheck checks) \<noteq> ''error''"
    using overall_performHealthCheck(1) [of checks] by auto
  have c: "overall (performHealthCheck checks) = ''critical'' \<longleftrightarrow>
      (\<exists>c \<in> set checks. component_status c = ''critical'' \<or> component_status c = ''error'')"
    by (rule overall_critical_iff)
  show ?thesis
    using m c by (simp add: a)
qed

text \<open>Warning answers 200, critical 503, a failed evaluation 503.\<close>

theorem health_status_code_witness:
  "http_status (health_route \<lparr>hc_overall = ''warning'', hc_components = None,
                              hc_alerts = None, hc_error = None\<rparr>) = 200 \<and>
   http_status (health_route \<lparr>hc_overall = ''critical'', hc_components = None,
                              hc_alerts = None, hc_error = None\<rparr>) = 503 \<and>
   http_status (health_route (healthCheckMiddleware (Inl ''timeout''))) = 503"
  using health_status_code [of "\<lparr>hc_overall = ''warning'', hc_components = None,
                              hc_alerts = None, hc_error = None\<rparr>" "''timeout''" "[]"]
    health_status_code [of "\<lparr>hc_overall = ''critical'', hc_components = None,
                              hc_alerts = None, hc_error = None\<rparr>" "''timeout''" "[]"]
  by simp

subsection \<open>Memory check\<close>

text \<open>
  Claim C5 as stated fails at its first boundary: with process heap usage at exactly 90
  percent (and system usage at 50 percent) the check reports warning, not critical,
  because the comparison with the threshold is strict.
\<close>

theorem memory_at_ninety_counterexample:
  "checkMemoryHealth \<lparr>process_usagePercent = 90, system_usagePercent = 50\<rparr> = ''warning'' \<and>
   checkMemoryHealth \<lparr>process_usagePercent = 90, system_usagePercent = 50\<rparr> \<noteq> ''critical''"
  by (simp add: checkMemoryHealth_def alertThresholds_memoryUsage_def)

text \<open>
  Claim C5, amended. While system memory usage is at most 90 percent, the memory check
  reports critical exactly for process heap usage strictly above 90 percent, warning for
  usage above 75 and at most 90 percent, and healthy otherwise; so usage of exactly 90
  percent and of 89.9 percent is a warning, and usage of 74.9 percent is healthy.
\<close>

theorem memory_classification:
  assumes "system_usagePercent m \<le> 90"
  shows "checkMemoryHealth m =
           (if process_usagePercent m > 90 then ''critical''
            else if process_usagePercent m > 75 then ''warning'' else ''healthy'') \<and>
         checkMemoryHealth (m\<lparr>process_usagePercent := 90\<rparr>) = ''warning'' \<and>
         checkMemoryHealth (m\<lparr>process_usagePercent := 899 / 10\<rparr>) = ''warning'' \<and>
         checkMemoryHealth (m\<lparr>process_usagePercent := 749 / 10\<rparr>) = ''healthy''"
  using assms by (simp add: checkMemoryHealth_def alertThresholds_memoryUsage_def Let_def)

text \<open>System usage 50 percent; process usage 90.1, 90, 89.9 and 74.9 percent.\<close>

theorem memory_classification_witness:
  "system_usagePercent \<lparr>process_usagePercent = 901 / 10, system_usagePercent = 50\<rparr> \<le> 90 \<and>
   checkMemoryHealth \<lparr>process_usagePercent = 901 / 10, system_usagePercent = 50\<rparr> = ''critical'' \<and>
   checkMemoryHealth \<lparr>process_usagePercent = 90, system_usagePercent = 50\<rparr> = ''warning'' \<and>
   checkMemoryHealth \<lparr>process_usagePercent = 899 / 10, system_usagePercent = 50\<rparr> = ''warning'' \<and>
   checkMemoryHealth \<lparr>process_usagePercent = 749 / 10, system_usagePercent = 50\<rparr> = ''healthy''"
  using memory_classification [of "\<lparr>process_usagePercent = 901 / 10, system_usagePercent = 50\<rparr>"]
  by simp

section \<open>Properties of the sort\<close>

lemma insert_sorted_insort:
  "insert_sorted (\<lambda>a b. g b - g a) x ys = insort_key (\<lambda>a. - g a) x ys"
  for g :: "'a \<Rightarrow> int"
  by (induction ys) auto

lemma Array_sort_desc: "Array_sort (\<lambda>a b. g b - g a) xs = sort_key (\<lambda>a. - g a) xs"
  for g :: "'a \<Rightarrow> int"
  by (induction xs) (simp_all add: Array_sort_def insert_sorted_insort)

lemma Array_sort_desc_sorted:
  "sorted_wrt (\<lambda>a b. g a \<ge> g b) (Array_sort (\<lambda>a b. g b - g a) xs)"
  for g :: "'a \<Rightarrow> int"
proof -
  have "sorted (map (\<lambda>a. - g a) (sort_key (\<lambda>a. - g a) xs))"
    by (rule sorted_sort_key)
  then show ?thesis
    by (simp add: Array_sort_desc sorted_map)
qed

lemma Array_sort_desc_stable:
  "filter (\<lambda>a. g a = k) (Array_sort (\<lambda>a b. g b - g a) xs) = filter (\<lambda>a. g a = k) xs"
  for g :: "'a \<Rightarrow> int"
proof -
  have "filter (\<lambda>a. - g a = - k) (sort_key (\<lambda>a. - g a) xs) = filter (\<lambda>a. - g a = - k) xs"
    by (rule sort_key_stable)
  then show ?thesis
    by (simp add: Array_sort_desc)
qed

lemma Array_sort_desc_mset: "mset (Array_sort (\<lambda>a b. g b - g a) xs) = mset xs"
  for g :: "'a \<Rightarrow> int"
  by (simp add: Array_sort_desc)

section \<open>Properties of the alerts endpoint\<close>

lemma severityOrder_eq_iff: "severityOrder a = severityOrder b \<longleftrightarrow> a = b"
  by (cases a; cases b) simp_all

text \<open>
  Claim C8. The alerts endpoint returns the combined alert list sorted by severity,
  critical before warning before info; the result is a rearrangement of the combined
  list in which the alerts of each severity keep their original relative order; and
  the input warning A, critical B, info C, critical D comes out as B, D, A, C.
\<close>

theorem alerts_sorted_stable:
  "sorted_wrt (\<lambda>a b. severityOrder (alert_severity a) \<ge> severityOrder (alert_severity b))
      (items (alerts_route hc sev perf)) \<and>
   mset (items (alerts_route hc sev perf)) = mset (combined_alerts hc sev perf) \<and>
   (\<forall>s. filter (\<lambda>a. alert_severity a = s) (items (alerts_route hc sev perf)) =
        filter (\<lambda>a. alert_severity a = s) (combined_alerts hc sev perf)) \<and>
   items (alerts_route
      \<lparr>hc_overall = ''critical'', hc_components = None,
       hc_alerts = Some [\<lparr>component = ''A'', alert_severity = warning, alert_message = ''a''\<rparr>,
                         \<lparr>component = ''B'', alert_severity = critical, alert_message = ''b''\<rparr>,
                         \<lparr>component = ''C'', alert_severity = info, alert_message = ''c''\<rparr>,
                         \<lparr>component = ''D'', alert_severity = critical, alert_message = ''d''\<rparr>],
       hc_error = None\<rparr> None []) =
     [\<lparr>component = ''B'', alert_severity = critical, alert_message = ''b''\<rparr>,
      \<lparr>component = ''D'', alert_severity = critical, alert_message = ''d''\<rparr>,
      \<lparr>component = ''A'', alert_severity = warning, alert_message = ''a''\<rparr>,
      \<lparr>component = ''C'', alert_severity = info, alert_message = ''c''\<rparr>]"
proof -
  have i: "items (alerts_route h s p) =
        Array_sort (\<lambda>a b. severityOrder (alert_severity b) - severityOrder (alert_severity a))
          (combined_alerts h s p)" for h s p
    by (simp add: alerts_route_def Let_def)
  have ex: "items (alerts_route
      \<lparr>hc_overall = ''critical'', hc_components = None,
       hc_alerts = Some [\<lparr>component = ''A'', alert_severity = warning, alert_message = ''a''\<rparr>,
                         \<lparr>component = ''B'', alert_severity = critical, alert_message = ''b''\<rparr>,
                         \<lparr>component = ''C'', alert_severity = info, alert_message = ''c''\<rparr>,
                         \<lparr>component = ''D'', alert_severity = critical, alert_message = ''d''\<rparr>],
       hc_error = None\<rparr> None []) =
     [\<lparr>component = ''B'', alert_severity = critical, alert_message = ''b''\<rparr>,
      \<lparr>component = ''D'', alert_severity = critical, alert_message = ''d''\<rparr>,
      \<lparr>component = ''A'', alert_severity = warning, alert_message = ''a''\<rparr>,
      \<lparr>component = ''C'', alert_severity = info, alert_message = ''c''\<rparr>]"
    unfolding i by (simp add: combined_alerts_def Array_sort_def)
  have st: "filter (\<lambda>a. alert_severity a = s) (items (alerts_route hc sev perf)) =
        filter (\<lambda>a. alert_severity a = s) (combined_alerts hc sev perf)" for s
    using Array_sort_desc_stable [of "\<lambda>a. severityOrder (alert_severity a)" "severityOrder s"
        "combined_alerts hc sev perf"]
    by (simp add: i severityOrder_eq_iff)
  have so: "sorted_wrt (\<lambda>a b. severityOrder (alert_severity a) \<ge> severityOrder (alert_severity b))
      (items (alerts_route hc sev perf))"
    unfolding i by (rule Array_sort_desc_sorted)
  have ms: "mset (items (alerts_route hc sev perf)) = mset (combined_alerts hc sev perf)"
    unfolding i by (rule Array_sort_desc_mset)
  from so ms st ex show ?thesis by blast
qed

text \<open>A health warning followed by a critical and an informational performance alert.\<close>

theorem alerts_sorted_stable_witness:
  "items (alerts_route
      \<lparr>hc_overall = ''warning'', hc_components = None,
       hc_alerts = Some [\<lparr>component = ''cpu'', alert_severity = warning, alert_message = ''High CPU usage''\<rparr>],
       hc_error = None\<rparr> None
      [\<lparr>component = ''memory'', alert_severity = critical, alert_message = ''High memory usage''\<rparr>,
       \<lparr>component = ''system'', alert_severity = info, alert_message = ''System recently restarted''\<rparr>]) =
   [\<lparr>component = ''memory'', alert_severity = critical, alert_message = ''High memory usage''\<rparr>,
    \<lparr>component = ''cpu'', alert_severity = warning, alert_message = ''High CPU usage''\<rparr>,
    \<lparr>component = ''system'', alert_severity = info, alert_message = ''System recently restarted''\<rparr>]"
  using alerts_sorted_stable [of
      "\<lparr>hc_overall = ''warning'', hc_components = None,
       hc_alerts = Some [\<lparr>component = ''cpu'', alert_severity = warning, alert_message = ''High CPU usage''\<rparr>],
       hc_error = None\<rparr>" None
      "[\<lparr>component = ''memory'', alert_severity = critical, alert_message = ''High memory usage''\<rparr>,
       \<lparr>component = ''system'', alert_severity = info, alert_message = ''System recently restarted''\<rparr>]"]
  by (simp add: alerts_route_def combined_alerts_def Array_sort_def)

section \<open>Properties of the metric queries\<close>

lemma request_step_none:
  "\<forall>r \<in> set (snd e). timestamp r < since \<Longrightarrow> request_step since acc e = acc"
proof -
  assume a: "\<forall>r \<in> set (snd e). timestamp r < since"
  obtain metrics t n where acc: "acc = (metrics, t, n)" by (cases acc) auto
  obtain endpoint rs where e: "e = (endpoint, rs)" by (cases e) auto
  have "filter (\<lambda>r. timestamp r \<ge> since) rs = []"
    using a e by (auto simp: filter_empty_conv)
  then show ?thesis by (simp add: acc e)
qed

lemma foldl_request_step_none:
  "\<forall>e \<in> set m. \<forall>r \<in> set (snd e). timestamp r < since \<Longrightarrow>
   foldl (request_step since) acc m = acc"
  by (induction m arbitrary: acc) (simp_all add: request_step_none)

lemma getRequestMetrics_nothing_recent:
  "\<forall>e \<in> set (requests s). \<forall>r \<in> set (snd e). timestamp r < since \<Longrightarrow>
   getRequestMetrics since s = initial_RequestMetrics"
  by (simp add: getRequestMetrics_def foldl_request_step_none)

text \<open>
  Claim C4 at the inputs it is about: on a fresh service, and on a service whose only
  record is older than the cutoff, \<^verbatim>\<open>getRequestMetrics\<close> returns the zero counts and
  the zero average, and no \<^verbatim>\<open>errorRate\<close> at all: the property is assigned only when
  a request was counted, so it is missing rather than 0.
\<close>

theorem request_metrics_without_errorRate:
  "getRequestMetrics 1000 (new_MonitoringService 0) =
     \<lparr>total = 0, successful = 0, failed = 0, averageResponseTime = 0,
      errorRate = None, endpoints = []\<rparr> \<and>
   getRequestMetrics 1000
       (recordRequest 5 ''/media/:id'' ''GET'' 200 12 None (new_MonitoringService 0)) =
     \<lparr>total = 0, successful = 0, failed = 0, averageResponseTime = 0,
      errorRate = None, endpoints = []\<rparr> \<and>
   errorRate (getRequestMetrics 1000 (new_MonitoringService 0)) \<noteq> Some 0"
  by (simp add: getRequestMetrics_def new_MonitoringService_def recordRequest_def
                initial_RequestMetrics_def Map_has_def Let_def)

text \<open>
  The scenario of the specification: three requests with status 200 and latencies
  100, 200 and 300 inside the window.
\<close>

lemma scenario_three_requests:
  "getRequestMetrics 0
     (run [RecordRequest 1 ''/screens/:id'' ''GET'' 200 100 None,
           RecordRequest 2 ''/screens/:id'' ''GET'' 200 200 None,
           RecordRequest 3 ''/screens/:id'' ''GET'' 200 300 None] (new_MonitoringService 0)) =
   \<lparr>total = 3, successful = 3, failed = 0, averageResponseTime = 200,
    errorRate = Some 0,
    endpoints = [(''GET:/screens/:id'',
        \<lparr>ep_total = 3, ep_successful = 3, ep_failed = 0, ep_averageResponseTime = 200,
         ep_errorRate = 0\<rparr>)]\<rparr>"
  by (simp add: getRequestMetrics_def new_MonitoringService_def recordRequest_def run_def
                initial_RequestMetrics_def Map_has_def Let_def Math_round_def splice0_def
                floor_eq_iff)

lemma recent_error_step:
  "recent (error_step since metrics e) =
     recent metrics @
     map (to_recent (fst e)) (lastn 10 (filter (\<lambda>x. err_timestamp x \<ge> since) (snd e)))"
  by (cases e) (simp add: Let_def lastn_def)

lemma recent_foldl_error_step:
  "recent (foldl (error_step since) metrics m) =
     recent metrics @
     concat (map (\<lambda>(errorType, es).
                    map (to_recent errorType)
                        (lastn 10 (filter (\<lambda>e. err_timestamp e \<ge> since) es))) m)"
proof (induction m arbitrary: metrics)
  case Nil
  then show ?case by simp
next
  case (Cons e m)
  show ?case
    by (cases e) (simp add: Cons.IH recent_error_step del: error_step.simps)
qed

lemma recent_getErrorMetrics:
  "recent (getErrorMetrics since s) =
     take 20 (sort_key (\<lambda>a. - rec_timestamp a) (candidates since s))"
  by (simp add: getErrorMetrics_def Let_def recent_foldl_error_step candidates_def
                initial_ErrorMetrics_def Array_sort_desc)

lemma desc_sort_timestamps:
  "map g (sort_key (\<lambda>a. - g a) xs) = rev (sort (map g xs))" for g :: "'a \<Rightarrow> int"
proof -
  let ?ys = "rev (map g (sort_key (\<lambda>a. - g a) xs))"
  have "sorted (map (\<lambda>a. - g a) (sort_key (\<lambda>a. - g a) xs))"
    by (rule sorted_sort_key)
  then have "sorted_wrt (\<lambda>a b. g a \<ge> g b) (sort_key (\<lambda>a. - g a) xs)"
    by (simp add: sorted_map)
  then have "sorted_wrt (\<lambda>a b. a \<ge> b) (map g (sort_key (\<lambda>a. - g a) xs))"
    by (simp add: sorted_wrt_map)
  then have "sorted ?ys"
    by (simp add: sorted_wrt_rev)
  moreover have "mset ?ys = mset (map g xs)"
    by simp
  ultimately have "sort (map g xs) = ?ys"
    by (metis properties_for_sort)
  then show ?thesis by simp
qed

lemma sorted_take_drop:
  assumes "sorted_wrt R xs" "a \<in> set (take n xs)" "b \<in> set (drop n xs)"
  shows "R a b"
proof -
  have "sorted_wrt R (take n xs @ drop n xs)" using assms(1) by simp
  then show ?thesis using assms(2,3) unfolding sorted_wrt_append by blast
qed

subsection \<open>Recent errors\<close>

text \<open>
  Claim C7 as stated fails. Ten errors of kind HTTPError are recorded at times 1 to 10
  and eleven of kind DatabaseError at times 11 to 21; all 21 are at or after the cutoff
  0. The query keeps the last ten of each kind, so \<^verbatim>\<open>recent\<close> holds the records of
  times 21 down to 12 and 10 down to 1, while the 20 most recent records are those of
  times 21 down to 2: the record of time 11 is left out although it is more recent
  than ten records that are returned.
\<close>

theorem recent_errors_counterexample:
  "map rec_timestamp
     (recent (getErrorMetrics 0
        (run (map (\<lambda>i. RecordError (int i)
                        \<lparr>name = ''HTTPError'', message = ''HTTP 500 Error'', stack = []\<rparr> [])
                    [1..<11] @
              map (\<lambda>i. RecordError (int i)
                        \<lparr>name = ''DatabaseError'', message = ''query failed'', stack = []\<rparr> [])
                    [11..<22])
             (new_MonitoringService 0)))) =
     [21, 20, 19, 18, 17, 16, 15, 14, 13, 12, 10, 9, 8, 7, 6, 5, 4, 3, 2, 1] \<and>
   most_recent 20
     (qualifying 0
        (run (map (\<lambda>i. RecordError (int i)
                        \<lparr>name = ''HTTPError'', message = ''HTTP 500 Error'', stack = []\<rparr> [])
                    [1..<11] @
              map (\<lambda>i. RecordError (int i)
                        \<lparr>name = ''DatabaseError'', message = ''query failed'', stack = []\<rparr> [])
                    [11..<22])
             (new_MonitoringService 0))) =
     [21, 20, 19, 18, 17, 16, 15, 14, 13, 12, 11, 10, 9, 8, 7, 6, 5, 4, 3, 2] \<and>
   map rec_timestamp
     (recent (getErrorMetrics 0
        (run (map (\<lambda>i. RecordError (int i)
                        \<lparr>name = ''HTTPError'', message = ''HTTP 500 Error'', stack = []\<rparr> [])
                    [1..<11] @
              map (\<lambda>i. RecordError (int i)
                        \<lparr>name = ''DatabaseError'', message = ''query failed'', stack = []\<rparr> [])
                    [11..<22])
             (new_MonitoringService 0)))) \<noteq>
   most_recent 20
     (qualifying 0
        (run (map (\<lambda>i. RecordError (int i)
                        \<lparr>name = ''HTTPError'', message = ''HTTP 500 Error'', stack = []\<rparr> [])
                    [1..<11] @
              map (\<lambda>i. RecordError (int i)
                        \<lparr>name = ''DatabaseError'', message = ''query failed'', stack = []\<rparr> [])
                    [11..<22])
             (new_MonitoringService 0)))"
  by code_simp

text \<open>
  Claim C7, amended. The records that reach the sort are, for each error kind, the last
  ten (in insertion order) of the kind's records at or after the cutoff. For every store
  and cutoff, \<^verbatim>\<open>recent\<close> holds the 20 most recent of these, or all of them when there are
  fewer, newest first; every one of them that is left out is no more recent than any
  record returned. Where no kind has more than ten records at or after the cutoff, they
  are all the records at or after the cutoff.
\<close>

theorem recent_errors:
  "length (recent (getErrorMetrics since s)) = min 20 (length (candidates since s)) \<and>
   sorted_wrt (\<lambda>a b. rec_timestamp a \<ge> rec_timestamp b) (recent (getErrorMetrics since s)) \<and>
   mset (recent (getErrorMetrics since s)) \<subseteq># mset (candidates since s) \<and>
   (\<forall>a \<in> set (recent (getErrorMetrics since s)).
      \<forall>b \<in># mset (candidates since s) - mset (recent (getErrorMetrics since s)).
        rec_timestamp b \<le> rec_timestamp a) \<and>
   map rec_timestamp (recent (getErrorMetrics since s)) = most_recent 20 (candidates since s) \<and>
   ((\<forall>e \<in> set (errors s). length (filter (\<lambda>x. err_timestamp x \<ge> since) (snd e)) \<le> 10) \<longrightarrow>
      candidates since s = qualifying since s)"
proof -
  let ?c = "candidates since s"
  let ?srt = "sort_key (\<lambda>a. - rec_timestamp a) ?c"
  let ?r = "recent (getErrorMetrics since s)"
  have r: "?r = take 20 ?srt" by (rule recent_getErrorMetrics)
  have len: "length ?r = min 20 (length ?c)"
    by (simp add: r)
  have "sorted (map (\<lambda>a. - rec_timestamp a) ?srt)"
    by (rule sorted_sort_key)
  then have srt: "sorted_wrt (\<lambda>a b. rec_timestamp a \<ge> rec_timestamp b) ?srt"
    by (simp add: sorted_map)
  then have so: "sorted_wrt (\<lambda>a b. rec_timestamp a \<ge> rec_timestamp b) ?r"
    unfolding r by (rule sorted_wrt_take)
  have split: "mset ?c = mset ?r + mset (drop 20 ?srt)"
  proof -
    have "mset (take 20 ?srt) + mset (drop 20 ?srt) = mset (take 20 ?srt @ drop 20 ?srt)"
      by (simp only: mset_append)
    also have "\<dots> = mset ?srt" by (simp only: append_take_drop_id)
    also have "\<dots> = mset ?c" by simp
    finally show ?thesis unfolding r by simp
  qed
  then have sub: "mset ?r \<subseteq># mset ?c" by simp
  have rest: "mset ?c - mset ?r = mset (drop 20 ?srt)"
    using split by simp
  have dom: "\<forall>a \<in> set ?r. \<forall>b \<in># mset ?c - mset ?r. rec_timestamp b \<le> rec_timestamp a"
    unfolding rest using sorted_take_drop [OF srt] unfolding r by auto
  have ts: "map rec_timestamp ?r = most_recent 20 ?c"
    unfolding r most_recent_def by (simp only: take_map [symmetric] desc_sort_timestamps)
  have same: "?c = qualifying since s"
    if "\<forall>e \<in> set (errors s). length (filter (\<lambda>x. err_timestamp x \<ge> since) (snd e)) \<le> 10"
  proof -
    have "map (\<lambda>(errorType, es). map (to_recent errorType)
                 (lastn 10 (filter (\<lambda>e. err_timestamp e \<ge> since) es))) (errors s) =
          map (\<lambda>(errorType, es). map (to_recent errorType)
                 (filter (\<lambda>e. err_timestamp e \<ge> since) es)) (errors s)"
      using that by (intro map_cong) (auto simp: lastn_id)
    then show ?thesis
      unfolding candidates_def qualifying_def by (rule arg_cong [where f = concat])
  qed
  from len so sub dom ts same show ?thesis by blast
qed

text \<open>
  The scenario of the specification: one DatabaseError recorded at time 5, queried
  from time 0, is returned with severity high.
\<close>

theorem recent_errors_witness:
  "recent (getErrorMetrics 0
     (recordError 5 \<lparr>name = ''DatabaseError'', message = ''query failed'', stack = []\<rparr> []
        (new_MonitoringService 0))) =
     [\<lparr>rec_type = ''DatabaseError'', rec_message = ''query failed'', rec_timestamp = 5,
       rec_severity = High\<rparr>] \<and>
   candidates 0
     (recordError 5 \<lparr>name = ''DatabaseError'', message = ''query failed'', stack = []\<rparr> []
        (new_MonitoringService 0)) =
   qualifying 0
     (recordError 5 \<lparr>name = ''DatabaseError'', message = ''query failed'', stack = []\<rparr> []
        (new_MonitoringService 0))"
proof -
  let ?s = "recordError 5 \<lparr>name = ''DatabaseError'', message = ''query failed'', stack = []\<rparr> []
        (new_MonitoringService 0)"
  have e: "errors ?s = [(''DatabaseError'',
      [\<lparr>err_timestamp = 5, err_message = ''query failed'', err_stack = [],
        err_context = [], severity = High\<rparr>])]"
    by (simp add: recordError_def new_MonitoringService_def Map_has_def Let_def
                  getErrorSeverity_def)
  have p: "\<forall>e \<in> set (errors ?s). length (filter (\<lambda>x. err_timestamp x \<ge> 0) (snd e)) \<le> 10"
    by (simp add: e)
  have c: "candidates 0 ?s = [\<lparr>rec_type = ''DatabaseError'', rec_message = ''query failed'',
       rec_timestamp = 5, rec_severity = High\<rparr>]"
    by (simp add: candidates_def e lastn_def to_recent_def)
  from recent_errors [of 0 ?s] p
  have q: "candidates 0 ?s = qualifying 0 ?s"
    and l: "length (recent (getErrorMetrics 0 ?s)) = min 20 (length (candidates 0 ?s))"
    and m: "mset (recent (getErrorMetrics 0 ?s)) \<subseteq># mset (candidates 0 ?s)"
    by blast+
  from l c have "length (recent (getErrorMetrics 0 ?s)) = 1" by simp
  then obtain x where x: "recent (getErrorMetrics 0 ?s) = [x]"
    by (cases "recent (getErrorMetrics 0 ?s)") auto
  with m c have "x = \<lparr>rec_type = ''DatabaseError'', rec_message = ''query failed'',
       rec_timestamp = 5, rec_severity = High\<rparr>"
    by simp
  with x q show ?thesis by simp
qed

section \<open>Properties of the bucketed history\<close>

lemma history_loop_eq:
  "history_loop now rng mm pm i buckets =
     rev (map (make_bucket now rng mm pm) [i..<bucketCount rng]) @ buckets"
proof (induction now rng mm pm i buckets rule: history_loop.induct)
  case (1 now rng mm pm i buckets)
  show ?case
  proof (cases "i < bucketCount rng")
    case True
    then have "[i..<bucketCount rng] = i # [Suc i..<bucketCount rng]"
      by (simp add: upt_conv_Cons)
    with True "1.IH" show ?thesis
      by (subst history_loop.simps) simp
  next
    case False
    then show ?thesis
      by (subst history_loop.simps) simp
  qed
qed

lemma history_buckets_eq:
  "history_buckets (dashboard_metrics now rng True mm pm) =
     rev (map (make_bucket now rng mm pm) [0..<bucketCount rng])"
  by (simp add: history_buckets_def dashboard_metrics_def history_loop_eq)

lemma make_bucket_fields:
  "bucket_timestamp (make_bucket now rng mm pm i) = now - (int i + 1) * bucketSize rng"
  "bucket_mediaUploads (make_bucket now rng mm pm i) =
     count_between (now - (int i + 1) * bucketSize rng) (now - int i * bucketSize rng)
       (media_times mm)"
  "bucket_playlistUpdates (make_bucket now rng mm pm i) =
     count_between (now - (int i + 1) * bucketSize rng) (now - int i * bucketSize rng)
       (playlist_times pm)"
  by (simp_all add: make_bucket_def Let_def count_between_def media_times_def
                    playlist_times_def filter_map comp_def split: option.splits)

lemma count_between_split:
  "a \<le> b \<Longrightarrow> b \<le> c \<Longrightarrow>
   count_between a b ts + count_between b c ts = count_between a c ts"
  by (induction ts) (auto simp: count_between_def)

lemma sum_counts:
  "0 \<le> w \<Longrightarrow>
   (\<Sum>i \<leftarrow> [0..<n]. count_between (now - (int i + 1) * w) (now - int i * w) ts) =
     count_between (now - int n * w) now ts"
proof (induction n)
  case 0
  then show ?case by (simp add: count_between_def)
next
  case (Suc n)
  have a: "now - (int n + 1) * w \<le> now - int n * w"
    using Suc.prems by (simp add: algebra_simps)
  have b: "now - int n * w \<le> now"
    using Suc.prems by simp
  have "(\<Sum>i \<leftarrow> [0..<Suc n]. count_between (now - (int i + 1) * w) (now - int i * w) ts) =
        count_between (now - int n * w) now ts +
        count_between (now - (int n + 1) * w) (now - int n * w) ts"
    using Suc by simp
  also have "\<dots> = count_between (now - (int n + 1) * w) now ts"
    using count_between_split [OF a b, of ts] by simp
  finally show ?case by (simp add: algebra_simps)
qed

lemma bucketSize_nonneg: "0 \<le> bucketSize rng"
  by (simp add: bucketSize_def)

lemma history_sums:
  "sum_list (map bucket_mediaUploads (history_buckets (dashboard_metrics now rng True mm pm))) =
     count_between (now - int (bucketCount rng) * bucketSize rng) now (media_times mm)"
  "sum_list (map bucket_playlistUpdates (history_buckets (dashboard_metrics now rng True mm pm))) =
     count_between (now - int (bucketCount rng) * bucketSize rng) now (playlist_times pm)"
  using sum_counts [where w = "bucketSize rng" and n = "bucketCount rng" and now = now,
                    OF bucketSize_nonneg]
  by (simp_all add: history_buckets_eq rev_map [symmetric] sum_list_rev comp_def
                    make_bucket_fields)

lemma history_nth:
  assumes "j < bucketCount rng"
  shows "history_buckets (dashboard_metrics now rng True mm pm) ! j =
           make_bucket now rng mm pm (bucketCount rng - 1 - j)"
  using assms by (simp add: history_buckets_eq rev_nth)

lemma count_between_all:
  "\<forall>t \<in> set ts. lo \<le> t \<and> t < hi \<Longrightarrow> count_between lo hi ts = length ts"
  by (simp add: count_between_def)

text \<open>
  Claim C9 as stated fails in its last part. The handler reads the clock before it
  queries the tables, and the queries bound the time stamps from below only. A media row
  stamped with the handler's own clock reading of \<open>now\<close> is returned by the query and
  counted in the aggregate, but lies in no bucket, since the last bucket ends just
  before \<open>now\<close>: the aggregate is 1 and the buckets sum to 0.
\<close>

theorem history_24h_counterexample:
  "timeThreshold 86400000 ''24h'' \<le> created_at \<lparr>created_at = 86400000\<rparr> \<and>
   mediaUploads (dashboard_metrics 86400000 ''24h'' True
                   (Some [\<lparr>created_at = 86400000\<rparr>]) (Some [])) = 1 \<and>
   sum_list (map bucket_mediaUploads
     (history_buckets (dashboard_metrics 86400000 ''24h'' True
                         (Some [\<lparr>created_at = 86400000\<rparr>]) (Some [])))) = 0"
  by code_simp

text \<open>
  Claim C9, amended. For the range 24h with history enabled the response has exactly 24
  buckets; bucket \<open>j\<close> starts \<open>24 - j\<close> hours before \<open>now\<close> and counts the rows stamped in
  the half-open hour from its start to the start of the next bucket, so the buckets do
  not overlap and an event on a boundary belongs to the later bucket. The bucket counts
  sum to the number of returned rows stamped in the 24 hours before \<open>now\<close>, \<open>now\<close>
  excluded; that is the aggregate count when every returned row is stamped in that
  interval, while rows stamped at or after \<open>now\<close> are in the aggregate only.
\<close>

theorem history_24h:
  "length (history_buckets (dashboard_metrics now ''24h'' True mm pm)) = 24 \<and>
   (\<forall>j < 24.
      bucket_timestamp (history_buckets (dashboard_metrics now ''24h'' True mm pm) ! j) =
        now - (24 - int j) * 3600000 \<and>
      bucket_mediaUploads (history_buckets (dashboard_metrics now ''24h'' True mm pm) ! j) =
        count_between (now - (24 - int j) * 3600000) (now - (23 - int j) * 3600000)
          (media_times mm) \<and>
      bucket_playlistUpdates (history_buckets (dashboard_metrics now ''24h'' True mm pm) ! j) =
        count_between (now - (24 - int j) * 3600000) (now - (23 - int j) * 3600000)
          (playlist_times pm)) \<and>
   sum_list (map bucket_mediaUploads (history_buckets (dashboard_metrics now ''24h'' True mm pm))) =
     count_between (now - 24 * 3600000) now (media_times mm) \<and>
   sum_list (map bucket_playlistUpdates (history_buckets (dashboard_metrics now ''24h'' True mm pm))) =
     count_between (now - 24 * 3600000) now (playlist_times pm) \<and>
   ((\<forall>t \<in> set (media_times mm). now - 24 * 3600000 \<le> t \<and> t < now) \<longrightarrow>
      sum_list (map bucket_mediaUploads (history_buckets (dashboard_metrics now ''24h'' True mm pm))) =
        mediaUploads (dashboard_metrics now ''24h'' True mm pm)) \<and>
   ((\<forall>t \<in> set (playlist_times pm). now - 24 * 3600000 \<le> t \<and> t < now) \<longrightarrow>
      sum_list (map bucket_playlistUpdates (history_buckets (dashboard_metrics now ''24h'' True mm pm))) =
        playlistUpdates (dashboard_metrics now ''24h'' True mm pm))"
proof -
  let ?h = "history_buckets (dashboard_metrics now ''24h'' True mm pm)"
  have n: "bucketCount ''24h'' = 24" and sz: "bucketSize ''24h'' = 3600000"
    by (simp_all add: bucketCount_def bucketSize_def)
  have len: "length ?h = 24"
    by (simp add: history_buckets_eq n)
  have nth: "bucket_timestamp (?h ! j) = now - (24 - int j) * 3600000 \<and>
      bucket_mediaUploads (?h ! j) =
        count_between (now - (24 - int j) * 3600000) (now - (23 - int j) * 3600000)
          (media_times mm) \<and>
      bucket_playlistUpdates (?h ! j) =
        count_between (now - (24 - int j) * 3600000) (now - (23 - int j) * 3600000)
          (playlist_times pm)" if "j < 24" for j
  proof -
    have e: "?h ! j = make_bucket now ''24h'' mm pm (23 - j)"
      using history_nth [of j "''24h''" now mm pm] that by (simp add: n)
    have i: "int (23 - j) = 23 - int j" using that by simp
    show ?thesis
      unfolding e make_bucket_fields sz i by (simp add: algebra_simps)
  qed
  have sm: "sum_list (map bucket_mediaUploads ?h) =
              count_between (now - 24 * 3600000) now (media_times mm)"
    using history_sums(1) [of now "''24h''" mm pm] by (simp add: n sz)
  have sp: "sum_list (map bucket_playlistUpdates ?h) =
              count_between (now - 24 * 3600000) now (playlist_times pm)"
    using history_sums(2) [of now "''24h''" mm pm] by (simp add: n sz)
  have lm: "mediaUploads (dashboard_metrics now ''24h'' True mm pm) = length (media_times mm)"
    by (simp add: dashboard_metrics_def media_times_def split: option.splits)
  have lp: "playlistUpdates (dashboard_metrics now ''24h'' True mm pm) = length (playlist_times pm)"
    by (simp add: dashboard_metrics_def playlist_times_def split: option.splits)
  have am: "sum_list (map bucket_mediaUploads ?h) =
              mediaUploads (dashboard_metrics now ''24h'' True mm pm)"
    if "\<forall>t \<in> set (media_times mm). now - 24 * 3600000 \<le> t \<and> t < now"
    unfolding sm lm using that by (rule count_between_all)
  have ap: "sum_list (map bucket_playlistUpdates ?h) =
              playlistUpdates (dashboard_metrics now ''24h'' True mm pm)"
    if "\<forall>t \<in> set (playlist_times pm). now - 24 * 3600000 \<le> t \<and> t < now"
    unfolding sp lp using that by (rule count_between_all)
  from len nth sm sp am ap show ?thesis by blast
qed

text \<open>
  Three media rows, on the first boundary, on the second boundary and in the last
  millisecond of the range, and one playlist row: the second media row lies in bucket 1
  and the buckets sum to the aggregates 3 and 1.
\<close>

theorem history_24h_witness:
  "length (history_buckets (dashboard_metrics 86400000 ''24h'' True
      (Some [\<lparr>created_at = 0\<rparr>, \<lparr>created_at = 3600000\<rparr>, \<lparr>created_at = 86399999\<rparr>])
      (Some [\<lparr>updated_at = 7200000\<rparr>]))) = 24 \<and>
   bucket_timestamp (history_buckets (dashboard_metrics 86400000 ''24h'' True
      (Some [\<lparr>created_at = 0\<rparr>, \<lparr>created_at = 3600000\<rparr>, \<lparr>created_at = 86399999\<rparr>])
      (Some [\<lparr>updated_at = 7200000\<rparr>])) ! 1) = 3600000 \<and>
   bucket_mediaUploads (history_buckets (dashboard_metrics 86400000 ''24h'' True
      (Some [\<lparr>created_at = 0\<rparr>, \<lparr>created_at = 3600000\<rparr>, \<lparr>created_at = 86399999\<rparr>])
      (Some [\<lparr>updated_at = 7200000\<rparr>])) ! 1) = 1 \<and>
   sum_list (map bucket_mediaUploads (history_buckets (dashboard_metrics 86400000 ''24h'' True
      (Some [\<lparr>created_at = 0\<rparr>, \<lparr>created_at = 3600000\<rparr>, \<lparr>created_at = 86399999\<rparr>])
      (Some [\<lparr>updated_at = 7200000\<rparr>])))) = 3 \<and>
   mediaUploads (dashboard_metrics 86400000 ''24h'' True
      (Some [\<lparr>created_at = 0\<rparr>, \<lparr>created_at = 3600000\<rparr>, \<lparr>created_at = 86399999\<rparr>])
      (Some [\<lparr>updated_at = 7200000\<rparr>])) = 3 \<and>
   sum_list (map bucket_playlistUpdates (history_buckets (dashboard_metrics 86400000 ''24h'' True
      (Some [\<lparr>created_at = 0\<rparr>, \<lparr>created_at = 3600000\<rparr>, \<lparr>created_at = 86399999\<rparr>])
      (Some [\<lparr>updated_at = 7200000\<rparr>])))) = 1"
proof -
  let ?mm = "Some [\<lparr>created_at = 0\<rparr>, \<lparr>created_at = 3600000\<rparr>, \<lparr>created_at = 86399999\<rparr>]"
  let ?pm = "Some [\<lparr>updated_at = 7200000\<rparr>]"
  let ?d = "dashboard_metrics 86400000 ''24h'' True ?mm ?pm"
  note t = history_24h [of 86400000 ?mm ?pm]
  have mt: "media_times ?mm = [0, 3600000, 86399999]"
    by (simp add: media_times_def)
  have inside: "\<forall>t \<in> set (media_times ?mm). 86400000 - 24 * 3600000 \<le> t \<and> t < 86400000"
    by (simp add: mt)
  from t have len: "length (history_buckets ?d) = 24" by blast
  have "(1::nat) < 24" by simp
  from t [THEN conjunct2, THEN conjunct1, rule_format, OF this]
  have "bucket_timestamp (history_buckets ?d ! 1) = 86400000 - (24 - int 1) * 3600000 \<and>
      bucket_mediaUploads (history_buckets ?d ! 1) =
        count_between (86400000 - (24 - int 1) * 3600000) (86400000 - (23 - int 1) * 3600000)
          (media_times ?mm)"
    by blast
  then have b1: "bucket_timestamp (history_buckets ?d ! 1) = 3600000"
    and b2: "bucket_mediaUploads (history_buckets ?d ! 1) = 1"
    by (simp_all add: mt count_between_def)
  from t inside have eq: "sum_list (map bucket_mediaUploads (history_buckets ?d)) = mediaUploads ?d"
    by blast
  have m: "mediaUploads ?d = 3"
    by (simp add: dashboard_metrics_def)
  have pt: "playlist_times ?pm = [7200000]"
    by (simp add: playlist_times_def)
  have inside': "\<forall>t \<in> set (playlist_times ?pm). 86400000 - 24 * 3600000 \<le> t \<and> t < 86400000"
    by (simp add: pt)
  from t inside' have eq': "sum_list (map bucket_playlistUpdates (history_buckets ?d)) =
                              playlistUpdates ?d"
    by blast
  have p: "playlistUpdates ?d = 1"
    by (simp add: dashboard_metrics_def)
  from len b1 b2 eq m eq' p show ?thesis by simp
qed

section \<open>Properties of the endpoint-pattern normalization\<close>

subsection \<open>Code units\<close>

lemma units_literals:
  "units ''/:id'' = slash # units '':id''" "units ''/:code'' = slash # units '':code''"
  "units '':id'' = colon # units ''id''" "units '':code'' = colon # units ''code''"
  by (simp_all add: units_def slash_def colon_def)

lemmas class_defs = is_digit_def is_upper_def is_lower_def is_alnum_def is_hex_def
  is_dash_def nonslash_def is_latin1_upper_def lower_narrow_def slash_def colon_def dash_def

lemma lower_classes:
  "is_digit (lower_narrow c) = is_digit c"
  "is_alnum (lower_narrow c) = is_alnum c"
  "is_hex (lower_narrow c) = is_hex c"
  "is_dash (lower_narrow c) = is_dash c"
  "nonslash (lower_narrow c) = nonslash c"
  by (auto simp: class_defs)

lemma lower_idem: "lower_narrow (lower_narrow c) = lower_narrow c"
  by (auto simp: class_defs)

lemma lower_fixed: "lower_narrow slash = slash" "lower_narrow colon = colon"
  by (auto simp: class_defs)

lemma lower_eq_slash: "lower_narrow c = slash \<longleftrightarrow> c = slash"
  by (auto simp: class_defs)

lemma lower_less: "c < 256 \<Longrightarrow> lower_narrow c < 256"
  by (auto simp: class_defs)

lemma class_nonslash:
  "is_digit c \<Longrightarrow> nonslash c" "is_alnum c \<Longrightarrow> nonslash c" "is_hex c \<Longrightarrow> nonslash c"
  "is_dash c \<Longrightarrow> nonslash c"
  by (auto simp: class_defs)

lemma colon_no_class:
  "\<not> is_digit colon" "\<not> is_alnum colon" "\<not> is_hex colon" "nonslash colon"
  by (auto simp: class_defs)

lemma same_letter_lower: "same_letter u v \<Longrightarrow> lower_narrow u = lower_narrow v"
  by (auto simp: same_letter_def cases_of_letter_def class_defs)

lemma same_letter_less: "same_letter u v \<Longrightarrow> u < 256 \<Longrightarrow> v < 256"
  by (auto simp: same_letter_def cases_of_letter_def)

subsection \<open>Lower-casing of narrow strings\<close>

lemma toLowerCase_unit_narrow: "u < 256 \<Longrightarrow> toLowerCase_unit u = Some (lower_narrow u)"
  by (simp add: toLowerCase_unit_def lower_narrow_def)

lemma toLowerCase_narrow: "narrow s \<Longrightarrow> toLowerCase s = Some (map lower_narrow s)"
  by (induction s) (simp_all add: toLowerCase_def narrow_def toLowerCase_unit_narrow)

lemma narrow_lower: "narrow s \<Longrightarrow> narrow (map lower_narrow s)"
  by (induction s) (simp_all add: narrow_def lower_less)

lemma narrow_units: "narrow (units ''/:id'')" "narrow (units ''/:code'')"
  by (simp_all add: narrow_def units_def)

lemma narrow_replace_global:
  "narrow r \<Longrightarrow> narrow s \<Longrightarrow> narrow (replace_global m r s)"
proof (induction m r s rule: replace_global.induct)
  case (1 matcher replacement)
  then show ?case by (simp add: narrow_def)
next
  case (2 matcher replacement c cs)
  have d: "narrow (drop k cs)" for k
    using "2.prems"(2) by (auto simp: narrow_def list_all_iff dest: in_set_dropD)
  show ?case
  proof (cases "matcher (c # cs)")
    case None
    with 2 show ?thesis by (simp add: narrow_def)
  next
    case (Some n)
    with "2.IH"(2) [OF Some "2.prems"(1) d] "2.prems"(1) show ?thesis
      by (simp add: narrow_def)
  qed
qed

lemma narrow_replace_segments: "narrow s \<Longrightarrow> narrow (replace_segments s)"
  unfolding replace_segments_def
  by (intro narrow_replace_global narrow_units)

lemma getEndpointPattern_narrow:
  "narrow path \<Longrightarrow> path \<noteq> [] \<Longrightarrow>
   getEndpointPattern path = Some (map lower_narrow (replace_segments path))"
  by (simp add: getEndpointPattern_def toLowerCase_narrow narrow_replace_segments)

subsection \<open>Strings up to letter case\<close>

lemma lower_string_simps:
  "lower_string [] = []" "lower_string (c # cs) = lower_narrow c # lower_string cs"
  "lower_string (xs @ ys) = lower_string xs @ lower_string ys"
  "lower_string (drop k xs) = drop k (lower_string xs)"
  "lower_string (take k xs) = take k (lower_string xs)"
  "length (lower_string xs) = length xs"
  by (simp_all add: lower_string_def drop_map take_map)

lemma lower_string_idem: "lower_string (lower_string s) = lower_string s"
  by (simp add: lower_string_def lower_idem)

lemma lower_eq_length: "lower_string s = lower_string t \<Longrightarrow> length s = length t"
  by (metis lower_string_simps(6))

lemma class_of_lower:
  assumes "\<And>c. P (lower_narrow c) = P c" and "lower_narrow x = lower_narrow y"
  shows "P x = P y"
  by (metis assms)

lemma takeWhile_lower:
  assumes inv: "\<And>c. P (lower_narrow c) = P c"
  shows "lower_string (takeWhile P s) = takeWhile P (lower_string s)"
  by (induction s) (simp_all add: lower_string_simps inv)

lemma dropWhile_lower:
  assumes inv: "\<And>c. P (lower_narrow c) = P c"
  shows "lower_string (dropWhile P s) = dropWhile P (lower_string s)"
  by (induction s) (simp_all add: lower_string_simps inv)

lemma takeWhile_length_lower:
  assumes inv: "\<And>c. P (lower_narrow c) = P c"
  shows "length (takeWhile P (lower_string s)) = length (takeWhile P s)"
  using takeWhile_lower [of P s, OF inv] by (metis lower_string_simps(6))

lemma list_all2_lower:
  assumes inv: "\<forall>P \<in> set pat. \<forall>c. P (lower_narrow c) = P c"
  shows "list_all2 (\<lambda>P c. P c) pat (lower_string s) = list_all2 (\<lambda>P c. P c) pat s"
  using inv
proof (induction pat arbitrary: s)
  case Nil
  then show ?case by (simp add: lower_string_def)
next
  case (Cons P pat)
  then show ?case by (cases s) (simp_all add: lower_string_simps)
qed

lemma match_classes_lower:
  assumes inv: "\<forall>P \<in> set pat. \<forall>c. P (lower_narrow c) = P c"
  shows "match_classes pat (lower_string s) = match_classes pat s"
proof -
  have "take (length pat) (lower_string s) = lower_string (take (length pat) s)"
    by (simp add: lower_string_simps)
  then show ?thesis
    by (simp only: match_classes_def list_all2_lower [OF inv] lower_string_simps(6))
qed

lemma uuid_pattern_classes: "P \<in> set uuid_pattern \<Longrightarrow> P = is_hex \<or> P = is_dash"
  by (auto simp: uuid_pattern_def)

lemma length_uuid_pattern: "length uuid_pattern = 36"
  by (simp add: uuid_pattern_def)

lemma hd_uuid_pattern: "uuid_pattern = is_hex # tl uuid_pattern"
  by (simp add: uuid_pattern_def eval_nat_numeral)

subsection \<open>The matchers do not depend on letter case\<close>

lemma match_uuid_lower: "match_uuid (lower_string s) = match_uuid s"
proof (cases s)
  case Nil
  then show ?thesis by (simp add: lower_string_simps)
next
  case (Cons c cs)
  have "match_classes uuid_pattern (lower_string cs) = match_classes uuid_pattern cs"
    by (rule match_classes_lower) (auto dest!: uuid_pattern_classes simp: lower_classes)
  then show ?thesis
    by (simp add: Cons match_uuid_def lower_string_simps lower_eq_slash)
qed

lemma match_numeric_lower: "match_numeric (lower_string s) = match_numeric s"
  by (cases s)
     (simp_all add: match_numeric_def lower_string_simps lower_eq_slash
                    takeWhile_length_lower lower_classes)

lemma match_code_lower: "match_code (lower_string s) = match_code s"
  by (cases s)
     (simp_all add: match_code_def lower_string_simps lower_eq_slash
                    takeWhile_length_lower lower_classes)

lemma matcher_case:
  assumes "\<And>s. m (lower_string s) = m s" and "lower_string s = lower_string t"
  shows "m s = m t"
  by (metis assms)

subsection \<open>The three expressions are segment matchers\<close>

lemma takeWhile_length_mono:
  "(\<And>x. P x \<Longrightarrow> Q x) \<Longrightarrow> length (takeWhile P xs) \<le> length (takeWhile Q xs)"
  by (induction xs) auto

lemma takeWhile_takeWhile:
  "(\<And>x. P x \<Longrightarrow> Q x) \<Longrightarrow> takeWhile P (takeWhile Q xs) = takeWhile P xs"
  by (induction xs) auto

lemma take_takeWhile:
  "k \<le> length (takeWhile Q xs) \<Longrightarrow> take k (takeWhile Q xs) = take k xs"
proof (induction xs arbitrary: k)
  case Nil
  then show ?case by simp
next
  case (Cons x xs)
  then show ?case by (cases k) (auto split: if_splits)
qed

lemma length_takeWhile_ge:
  "k \<le> length xs \<Longrightarrow> \<forall>x \<in> set (take k xs). Q x \<Longrightarrow> k \<le> length (takeWhile Q xs)"
proof (induction xs arbitrary: k)
  case Nil
  then show ?case by simp
next
  case (Cons x xs)
  then show ?case by (cases k) auto
qed

lemma list_all2_classes:
  "list_all2 (\<lambda>P c. P c) pat xs \<Longrightarrow> \<forall>P \<in> set pat. \<forall>c. P c \<longrightarrow> Q c \<Longrightarrow> \<forall>x \<in> set xs. Q x"
  by (induction pat xs rule: list_all2_induct) auto

lemma match_classes_within:
  assumes "match_classes pat cs" and cl: "\<forall>P \<in> set pat. \<forall>c. P c \<longrightarrow> Q c"
  shows "length pat \<le> length (takeWhile Q cs)"
proof -
  from assms(1) have l: "length pat \<le> length cs"
    and m: "list_all2 (\<lambda>P c. P c) pat (take (length pat) cs)"
    by (simp_all add: match_classes_def)
  from list_all2_classes [OF m cl] have "\<forall>x \<in> set (take (length pat) cs). Q x" .
  with l show ?thesis by (rule length_takeWhile_ge)
qed

lemma match_classes_local:
  assumes cl: "\<forall>P \<in> set pat. \<forall>c. P c \<longrightarrow> Q c"
  shows "match_classes pat (takeWhile Q cs) = match_classes pat cs"
proof
  assume a: "match_classes pat (takeWhile Q cs)"
  then have l: "length pat \<le> length (takeWhile Q cs)"
    by (simp add: match_classes_def)
  moreover have "length (takeWhile Q cs) \<le> length cs"
    by (rule length_takeWhile_le)
  ultimately show "match_classes pat cs"
    using a by (simp add: match_classes_def take_takeWhile)
next
  assume a: "match_classes pat cs"
  from match_classes_within [OF a cl] have l: "length pat \<le> length (takeWhile Q cs)" .
  with a show "match_classes pat (takeWhile Q cs)"
    by (simp add: match_classes_def take_takeWhile)
qed

lemma uuid_pattern_nonslash: "\<forall>P \<in> set uuid_pattern. \<forall>c. P c \<longrightarrow> nonslash c"
  by (auto dest!: uuid_pattern_classes simp: class_nonslash)

lemma segment_matcher_uuid: "segment_matcher match_uuid"
  unfolding segment_matcher_def
proof (intro conjI allI impI)
  fix s n
  assume a: "match_uuid s = Some n"
  then obtain cs where s: "s = slash # cs" and m: "match_classes uuid_pattern cs"
    and n: "n = 1 + length uuid_pattern"
    by (auto simp: match_uuid_def split: list.splits if_splits)
  from match_classes_within [OF m uuid_pattern_nonslash]
  show "\<exists>cs. s = slash # cs \<and> 1 \<le> n \<and> n - 1 \<le> length (takeWhile nonslash cs)"
    using s n by simp
next
  fix cs
  show "match_uuid (slash # cs) = match_uuid (slash # takeWhile nonslash cs)"
    by (simp add: match_uuid_def match_classes_local [OF uuid_pattern_nonslash])
next
  fix s t :: "nat list"
  assume "lower_string s = lower_string t"
  then show "match_uuid s = match_uuid t"
    by (rule matcher_case [rotated]) (rule match_uuid_lower)
next
  fix cs
  have "\<not> match_classes (is_hex # tl uuid_pattern) (colon # cs)"
    by (simp add: match_classes_def colon_no_class)
  then show "match_uuid (slash # colon # cs) = None"
    using hd_uuid_pattern by (simp add: match_uuid_def)
qed

lemma segment_matcher_numeric: "segment_matcher match_numeric"
  unfolding segment_matcher_def
proof (intro conjI allI impI)
  fix s n
  assume a: "match_numeric s = Some n"
  then obtain cs where s: "s = slash # cs" and n: "n = 1 + length (takeWhile is_digit cs)"
    by (auto simp: match_numeric_def split: list.splits if_splits)
  have "length (takeWhile is_digit cs) \<le> length (takeWhile nonslash cs)"
    by (rule takeWhile_length_mono) (rule class_nonslash)
  then show "\<exists>cs. s = slash # cs \<and> 1 \<le> n \<and> n - 1 \<le> length (takeWhile nonslash cs)"
    using s n by simp
next
  fix cs
  have "takeWhile is_digit (takeWhile nonslash cs) = takeWhile is_digit cs"
    by (rule takeWhile_takeWhile) (rule class_nonslash)
  then show "match_numeric (slash # cs) = match_numeric (slash # takeWhile nonslash cs)"
    by (simp add: match_numeric_def)
next
  fix s t :: "nat list"
  assume "lower_string s = lower_string t"
  then show "match_numeric s = match_numeric t"
    by (rule matcher_case [rotated]) (rule match_numeric_lower)
next
  fix cs
  show "match_numeric (slash # colon # cs) = None"
    by (simp add: match_numeric_def colon_no_class)
qed

lemma segment_matcher_code: "segment_matcher match_code"
  unfolding segment_matcher_def
proof (intro conjI allI impI)
  fix s n
  assume a: "match_code s = Some n"
  then obtain cs where s: "s = slash # cs" and n: "n = 1 + length (takeWhile is_alnum cs)"
    by (auto simp: match_code_def split: list.splits if_splits)
  have "length (takeWhile is_alnum cs) \<le> length (takeWhile nonslash cs)"
    by (rule takeWhile_length_mono) (rule class_nonslash)
  then show "\<exists>cs. s = slash # cs \<and> 1 \<le> n \<and> n - 1 \<le> length (takeWhile nonslash cs)"
    using s n by simp
next
  fix cs
  have "takeWhile is_alnum (takeWhile nonslash cs) = takeWhile is_alnum cs"
    by (rule takeWhile_takeWhile) (rule class_nonslash)
  then show "match_code (slash # cs) = match_code (slash # takeWhile nonslash cs)"
    by (simp add: match_code_def)
next
  fix s t :: "nat list"
  assume "lower_string s = lower_string t"
  then show "match_code s = match_code t"
    by (rule matcher_case [rotated]) (rule match_code_lower)
next
  fix cs
  show "match_code (slash # colon # cs) = None"
    by (simp add: match_code_def colon_no_class)
qed

subsection \<open>Replacement works segment by segment\<close>

lemma segment_matcherD:
  assumes "segment_matcher m"
  shows "m s = Some n \<Longrightarrow> \<exists>cs. s = slash # cs \<and> 1 \<le> n \<and> n - 1 \<le> length (takeWhile nonslash cs)"
    and "m (slash # cs) = m (slash # takeWhile nonslash cs)"
    and "lower_string s = lower_string t \<Longrightarrow> m s = m t"
    and "m (slash # colon # cs) = None"
  using assms unfolding segment_matcher_def by blast+

lemma no_match_nonslash:
  assumes "segment_matcher m" "nonslash c"
  shows "m (c # cs) = None"
proof (cases "m (c # cs)")
  case None
  then show ?thesis .
next
  case (Some n)
  from segment_matcherD(1) [OF assms(1) Some] assms(2) show ?thesis
    by (simp add: nonslash_def)
qed

lemma replace_global_prefix:
  assumes "segment_matcher m" "\<forall>c \<in> set a. nonslash c"
  shows "replace_global m r (a @ s) = a @ replace_global m r s"
  using assms(2)
proof (induction a)
  case Nil
  then show ?case by simp
next
  case (Cons c a)
  then show ?case by (simp add: no_match_nonslash [OF assms(1)])
qed

lemma takeWhile_dropWhile_nonslash:
  "\<forall>c \<in> set (takeWhile nonslash cs). nonslash c"
  "dropWhile nonslash cs = [] \<or> hd (dropWhile nonslash cs) = slash"
  using hd_dropWhile [of nonslash cs] by (auto simp: nonslash_def dest: set_takeWhileD)

lemma replace_global_segment:
  assumes sm: "segment_matcher m"
  shows "replace_global m (slash # r) (slash # cs) =
           slash # replace_body m r (takeWhile nonslash cs) @
           replace_global m (slash # r) (dropWhile nonslash cs)"
proof -
  let ?b = "takeWhile nonslash cs" and ?rest = "dropWhile nonslash cs"
  have cs: "cs = ?b @ ?rest" by simp
  have loc: "m (slash # cs) = m (slash # ?b)"
    by (rule segment_matcherD(2) [OF sm])
  show ?thesis
  proof (cases "m (slash # cs)")
    case None
    have "replace_global m (slash # r) (?b @ ?rest) =
            ?b @ replace_global m (slash # r) ?rest"
      by (rule replace_global_prefix [OF sm]) (rule takeWhile_dropWhile_nonslash)
    with None loc show ?thesis
      by (simp add: replace_body_def)
  next
    case (Some n)
    from segment_matcherD(1) [OF sm Some] have n: "n - 1 \<le> length ?b" by simp
    then have "drop (n - 1) cs = drop (n - 1) ?b @ ?rest"
      by (subst cs) (simp del: takeWhile_dropWhile_id)
    moreover have "replace_global m (slash # r) (drop (n - 1) ?b @ ?rest) =
            drop (n - 1) ?b @ replace_global m (slash # r) ?rest"
      by (rule replace_global_prefix [OF sm])
         (meson in_set_dropD takeWhile_dropWhile_nonslash(1))
    ultimately show ?thesis
      using Some loc by (simp add: replace_body_def)
  qed
qed

lemma replace_global_map_segments:
  assumes sm: "segment_matcher m"
  shows "replace_global m (slash # r) s = map_segments (\<lambda>c. c) (replace_body m r) s"
proof (induction "\<lambda>c::nat. c" "replace_body m r" s rule: map_segments.induct)
  case 1
  then show ?case by simp
next
  case (2 c cs)
  show ?case
  proof (cases "c = slash")
    case True
    with 2 show ?thesis
      by (simp add: replace_global_segment [OF sm] del: replace_global.simps)
  next
    case False
    then have "m (c # cs) = None"
      by (intro no_match_nonslash [OF sm]) (simp add: nonslash_def)
    with False 2 show ?thesis by simp
  qed
qed

subsection \<open>Segment maps\<close>

lemma map_segments_head:
  "map_segments p g s = [] \<longleftrightarrow> s = []"
  "s \<noteq> [] \<Longrightarrow> hd s = slash \<Longrightarrow> hd (map_segments p g s) = slash"
  by (cases s; simp)+

lemma takeWhile_append_slash:
  assumes "\<forall>c \<in> set a. nonslash c" "x = [] \<or> hd x = slash"
  shows "takeWhile nonslash (a @ x) = a" "dropWhile nonslash (a @ x) = x"
  using assms by (cases x; simp add: nonslash_def)+

lemma map_segments_compose:
  assumes g1: "\<And>b. \<forall>c \<in> set b. nonslash c \<Longrightarrow> \<forall>c \<in> set (g1 b). nonslash c"
    and p1: "\<And>c. nonslash c \<Longrightarrow> nonslash (p1 c)"
  shows "map_segments p2 g2 (map_segments p1 g1 s) =
           map_segments (\<lambda>c. p2 (p1 c)) (\<lambda>b. g2 (g1 b)) s"
  using g1 p1
proof (induction p1 g1 s rule: map_segments.induct)
  case (1 p g)
  then show ?case by simp
next
  case (2 p g c cs)
  show ?case
  proof (cases "c = slash")
    case True
    let ?b = "takeWhile nonslash cs" and ?rest = "dropWhile nonslash cs"
    have a: "\<forall>c \<in> set (g ?b). nonslash c"
      by (rule "2.prems"(1)) (rule takeWhile_dropWhile_nonslash)
    have x: "map_segments p g ?rest = [] \<or> hd (map_segments p g ?rest) = slash"
      using takeWhile_dropWhile_nonslash(2) [of cs]
        map_segments_head [where p = p and g = g and s = ?rest] by blast
    from True "2.IH"(1) "2.prems" show ?thesis
      by (simp add: takeWhile_append_slash [OF a x])
  next
    case False
    then have "p c \<noteq> slash"
      using "2.prems"(2) [of c] by (simp add: nonslash_def)
    with False "2.IH"(2) "2.prems" show ?thesis by simp
  qed
qed

lemma map_segments_cong:
  assumes "\<And>c. nonslash c \<Longrightarrow> p c = p' c"
    and "\<And>b. \<forall>c \<in> set b. nonslash c \<Longrightarrow> g b = g' b"
  shows "map_segments p g s = map_segments p' g' s"
  using assms
proof (induction p g s rule: map_segments.induct)
  case (1 p g)
  then show ?case by simp
next
  case (2 p g c cs)
  show ?case
  proof (cases "c = slash")
    case True
    have "g (takeWhile nonslash cs) = g' (takeWhile nonslash cs)"
      by (rule "2.prems"(2)) (rule takeWhile_dropWhile_nonslash)
    with True "2.IH"(1) "2.prems" show ?thesis by simp
  next
    case False
    then have "p c = p' c"
      by (intro "2.prems"(1)) (simp add: nonslash_def)
    with False "2.IH"(2) "2.prems" show ?thesis by simp
  qed
qed

lemma lower_string_map_segments:
  "lower_string s = map_segments lower_narrow lower_string s"
proof (induction lower_narrow lower_string s rule: map_segments.induct)
  case 1
  then show ?case by (simp add: lower_string_simps)
next
  case (2 c cs)
  show ?case
  proof (cases "c = slash")
    case True
    have "lower_string cs =
            lower_string (takeWhile nonslash cs) @ lower_string (dropWhile nonslash cs)"
      by (simp add: lower_string_simps(3) [symmetric])
    with True 2 show ?thesis
      by (simp add: lower_string_simps lower_fixed)
  next
    case False
    with 2 show ?thesis by (simp add: lower_string_simps)
  qed
qed

subsection \<open>Bodies of segments\<close>

lemma replace_body_colon:
  assumes "segment_matcher m"
  shows "replace_body m r (colon # x) = colon # x"
  by (simp add: replace_body_def segment_matcherD(4) [OF assms])

lemma replace_body_nonslash:
  assumes "\<forall>c \<in> set b. nonslash c" "\<forall>c \<in> set r. nonslash c"
  shows "\<forall>c \<in> set (replace_body m r b). nonslash c"
  using assms by (auto simp: replace_body_def split: option.splits dest: in_set_dropD)

lemma replace_body_cases:
  "(m (slash # b) = None \<and> replace_body m (colon # r) b = b) \<or>
   (\<exists>x. replace_body m (colon # r) b = colon # x)"
  by (cases "m (slash # b)") (simp_all add: replace_body_def)

lemma nonslash_literals:
  "\<forall>c \<in> set (units '':id''). nonslash c" "\<forall>c \<in> set (units '':code''). nonslash c"
  by (simp_all add: nonslash_def units_def slash_def)

lemma normalize_body_nonslash:
  "\<forall>c \<in> set b. nonslash c \<Longrightarrow> \<forall>c \<in> set (normalize_body b). nonslash c"
proof -
  assume "\<forall>c \<in> set b. nonslash c"
  then have "\<forall>c \<in> set (replace_body match_code (units '':code'')
         (replace_body match_numeric (units '':id'') (replace_body match_uuid (units '':id'') b))). nonslash c"
    by (intro replace_body_nonslash nonslash_literals)
  then show ?thesis
    by (simp add: normalize_body_def lower_string_def lower_classes)
qed

lemma normalize_body_colon:
  "normalize_body (colon # x) = colon # lower_string x"
  by (simp add: normalize_body_def replace_body_colon segment_matcher_uuid
                segment_matcher_numeric segment_matcher_code lower_string_simps lower_fixed)

lemma normalize_body_unmatched:
  assumes "match_uuid (slash # b) = None" "match_numeric (slash # b) = None"
    "match_code (slash # b) = None"
  shows "normalize_body b = lower_string b"
  using assms by (simp add: normalize_body_def replace_body_def)

lemma normalize_body_cases:
  "(match_uuid (slash # b) = None \<and> match_numeric (slash # b) = None \<and>
    match_code (slash # b) = None \<and> normalize_body b = lower_string b) \<or>
   (\<exists>x. normalize_body b = colon # x)"
proof -
  let ?b1 = "replace_body match_uuid (units '':id'') b"
  let ?b2 = "replace_body match_numeric (units '':id'') ?b1"
  let ?b3 = "replace_body match_code (units '':code'') ?b2"
  have colon: "\<exists>x. normalize_body b = colon # x" if "\<exists>x. ?b3 = colon # x"
    using that by (auto simp: normalize_body_def lower_string_simps lower_fixed)
  consider (u) x where "?b1 = colon # x"
    | (n) x where "match_uuid (slash # b) = None" "?b1 = b" "?b2 = colon # x"
    | (c) x where "match_uuid (slash # b) = None" "?b1 = b"
        "match_numeric (slash # b) = None" "?b2 = b" "?b3 = colon # x"
    | (none) "match_uuid (slash # b) = None" "match_numeric (slash # b) = None"
        "match_code (slash # b) = None"
    using replace_body_cases [of match_uuid b "units ''id''", folded units_literals(3)]
      replace_body_cases [of match_numeric b "units ''id''", folded units_literals(3)]
      replace_body_cases [of match_code b "units ''code''", folded units_literals(4)]
    by (metis (no_types, lifting))
  then show ?thesis
  proof cases
    case u
    then have "?b3 = colon # x"
      by (simp add: replace_body_colon segment_matcher_numeric segment_matcher_code)
    then show ?thesis using colon by blast
  next
    case n
    then have "?b3 = colon # x"
      by (simp add: replace_body_colon segment_matcher_code)
    then show ?thesis using colon by blast
  next
    case c
    then show ?thesis using colon by blast
  next
    case none
    then show ?thesis by (simp add: normalize_body_unmatched)
  qed
qed

lemma normalize_body_idem: "normalize_body (normalize_body b) = normalize_body b"
proof -
  from normalize_body_cases [of b] show ?thesis
  proof (elim disjE conjE exE)
    assume a: "match_uuid (slash # b) = None" "match_numeric (slash # b) = None"
      "match_code (slash # b) = None" and e: "normalize_body b = lower_string b"
    have l: "slash # lower_string b = lower_string (slash # b)"
      by (simp add: lower_string_simps lower_fixed)
    have "normalize_body (lower_string b) = lower_string (lower_string b)"
      by (rule normalize_body_unmatched)
         (simp_all only: l match_uuid_lower match_numeric_lower match_code_lower a)
    then show ?thesis by (simp add: e lower_string_idem)
  next
    fix x
    assume e: "normalize_body b = colon # x"
    have "lower_string (normalize_body b) = normalize_body b"
      unfolding normalize_body_def by (rule lower_string_idem)
    with e have "lower_string x = x"
      by (simp add: lower_string_simps)
    then show ?thesis
      by (simp add: e normalize_body_colon)
  qed
qed

subsection \<open>The normalization, segment by segment\<close>

lemma body_nonslash:
  "\<forall>c \<in> set b. nonslash c \<Longrightarrow> \<forall>c \<in> set (replace_body m (units '':id'') b). nonslash c"
  "\<forall>c \<in> set b. nonslash c \<Longrightarrow> \<forall>c \<in> set (replace_body m (units '':code'') b). nonslash c"
  by (rule replace_body_nonslash, assumption, rule nonslash_literals)+

lemma normalized_segments:
  "lower_string (replace_segments path) = map_segments lower_narrow normalize_body path"
proof -
  let ?b1 = "replace_body match_uuid (units '':id'')"
  let ?b2 = "replace_body match_numeric (units '':id'')"
  let ?b3 = "replace_body match_code (units '':code'')"
  have r1: "replace_global match_uuid (units ''/:id'') s = map_segments (\<lambda>c. c) ?b1 s" for s
    unfolding units_literals by (rule replace_global_map_segments [OF segment_matcher_uuid])
  have r2: "replace_global match_numeric (units ''/:id'') s = map_segments (\<lambda>c. c) ?b2 s" for s
    unfolding units_literals by (rule replace_global_map_segments [OF segment_matcher_numeric])
  have r3: "replace_global match_code (units ''/:code'') s = map_segments (\<lambda>c. c) ?b3 s" for s
    unfolding units_literals by (rule replace_global_map_segments [OF segment_matcher_code])
  have c12: "map_segments (\<lambda>c. c) ?b2 (map_segments (\<lambda>c. c) ?b1 path) =
               map_segments (\<lambda>c. c) (\<lambda>b. ?b2 (?b1 b)) path"
    by (rule map_segments_compose) (intro body_nonslash | assumption)+
  have c123: "map_segments (\<lambda>c. c) ?b3 (map_segments (\<lambda>c. c) (\<lambda>b. ?b2 (?b1 b)) path) =
               map_segments (\<lambda>c. c) (\<lambda>b. ?b3 (?b2 (?b1 b))) path"
    by (rule map_segments_compose) (intro body_nonslash | assumption)+
  have cl: "map_segments lower_narrow lower_string
              (map_segments (\<lambda>c. c) (\<lambda>b. ?b3 (?b2 (?b1 b))) path) =
            map_segments lower_narrow (\<lambda>b. lower_string (?b3 (?b2 (?b1 b)))) path"
    by (rule map_segments_compose) (intro body_nonslash | assumption)+
  have "lower_string (replace_segments path) =
          lower_string (map_segments (\<lambda>c. c) (\<lambda>b. ?b3 (?b2 (?b1 b))) path)"
    by (simp only: replace_segments_def r1 r2 r3 c12 c123)
  also have "\<dots> = map_segments lower_narrow (\<lambda>b. lower_string (?b3 (?b2 (?b1 b)))) path"
    by (subst lower_string_map_segments) (rule cl)
  also have "\<dots> = map_segments lower_narrow normalize_body path"
    by (rule map_segments_cong) (simp_all add: normalize_body_def)
  finally show ?thesis .
qed

lemma normalized_idem:
  "lower_string (replace_segments (lower_string (replace_segments path))) =
     lower_string (replace_segments path)"
proof -
  let ?q = "map_segments lower_narrow normalize_body path"
  have "lower_string (replace_segments ?q) = map_segments lower_narrow normalize_body ?q"
    by (rule normalized_segments)
  also have "\<dots> = map_segments (\<lambda>c. lower_narrow (lower_narrow c))
                       (\<lambda>b. normalize_body (normalize_body b)) path"
    by (rule map_segments_compose) (simp_all add: normalize_body_nonslash lower_classes)
  also have "\<dots> = ?q"
    by (rule map_segments_cong) (simp_all add: lower_idem normalize_body_idem)
  finally show ?thesis by (simp only: normalized_segments)
qed

lemma getEndpointPattern_idem:
  assumes "narrow path"
  shows "\<exists>q. getEndpointPattern path = Some q \<and> narrow q \<and> getEndpointPattern q = Some q"
proof (cases "path = []")
  case True
  have "getEndpointPattern (units ''unknown'') = Some (units ''unknown'')" by code_simp
  moreover have "narrow (units ''unknown'')" by code_simp
  ultimately show ?thesis using True by (simp add: getEndpointPattern_def)
next
  case False
  let ?q = "lower_string (replace_segments path)"
  have q: "getEndpointPattern path = Some ?q"
    using getEndpointPattern_narrow [OF assms False] by (simp add: lower_string_def)
  have n: "narrow ?q"
    unfolding lower_string_def by (intro narrow_lower narrow_replace_segments assms)
  have ne: "?q \<noteq> []"
    using False by (simp add: normalized_segments map_segments_head)
  have "getEndpointPattern ?q = Some (lower_string (replace_segments ?q))"
    using getEndpointPattern_narrow [OF n ne] by (simp add: lower_string_def)
  then have "getEndpointPattern ?q = Some ?q"
    by (simp only: normalized_idem)
  with q n show ?thesis by blast
qed

subsection \<open>Letter case\<close>

lemma replace_global_case:
  assumes "segment_matcher m" "lower_string s = lower_string t"
  shows "lower_string (replace_global m r s) = lower_string (replace_global m r t)"
  using assms
proof (induction m r s arbitrary: t rule: replace_global.induct)
  case (1 matcher replacement)
  then show ?case by (simp add: lower_string_def)
next
  case (2 matcher replacement c cs)
  from "2.prems"(2) obtain c' cs' where t: "t = c' # cs'"
    and c: "lower_narrow c = lower_narrow c'" and cs: "lower_string cs = lower_string cs'"
    by (cases t) (auto simp: lower_string_def)
  have m: "matcher (c # cs) = matcher (c' # cs')"
    using segment_matcherD(3) [OF "2.prems"(1)] "2.prems"(2) t by blast
  show ?case
  proof (cases "matcher (c # cs)")
    case None
    with "2.IH"(1) [OF None "2.prems"(1) cs] m t c show ?thesis
      by (simp add: lower_string_simps)
  next
    case (Some n)
    have "lower_string (drop (n - 1) cs) = lower_string (drop (n - 1) cs')"
      by (simp add: lower_string_simps cs)
    from "2.IH"(2) [OF Some "2.prems"(1) this] Some m t show ?thesis
      by (simp add: lower_string_simps)
  qed
qed

lemma differ_only_in_case_lower:
  "differ_only_in_case p q \<Longrightarrow> lower_string p = lower_string q"
  unfolding differ_only_in_case_def lower_string_def
  by (induction p q rule: list_all2_induct) (simp_all add: same_letter_lower)

lemma differ_only_in_case_narrow:
  "differ_only_in_case p q \<Longrightarrow> narrow p \<Longrightarrow> narrow q"
  unfolding differ_only_in_case_def narrow_def
  by (induction p q rule: list_all2_induct) (auto dest: same_letter_less)

lemma normalized_case:
  assumes "lower_string p = lower_string q"
  shows "lower_string (replace_segments p) = lower_string (replace_segments q)"
proof -
  have "lower_string (replace_global match_uuid (units ''/:id'') p) =
        lower_string (replace_global match_uuid (units ''/:id'') q)"
    by (rule replace_global_case [OF segment_matcher_uuid assms])
  then have "lower_string (replace_global match_numeric (units ''/:id'')
                (replace_global match_uuid (units ''/:id'') p)) =
        lower_string (replace_global match_numeric (units ''/:id'')
                (replace_global match_uuid (units ''/:id'') q))"
    by (rule replace_global_case [OF segment_matcher_numeric])
  then show ?thesis
    unfolding replace_segments_def by (rule replace_global_case [OF segment_matcher_code])
qed

lemma getEndpointPattern_case:
  assumes "narrow p" "differ_only_in_case p q"
  shows "getEndpointPattern p = getEndpointPattern q"
proof (cases "p = []")
  case True
  with assms(2) have "q = []" by (simp add: differ_only_in_case_def)
  with True show ?thesis by simp
next
  case False
  with assms(2) have qne: "q \<noteq> []" by (auto simp: differ_only_in_case_def)
  have nq: "narrow q" by (rule differ_only_in_case_narrow [OF assms(2,1)])
  have "lower_string (replace_segments p) = lower_string (replace_segments q)"
    by (rule normalized_case) (rule differ_only_in_case_lower [OF assms(2)])
  then show ?thesis
    using getEndpointPattern_narrow [OF assms(1) False] getEndpointPattern_narrow [OF nq qne]
    by (simp add: lower_string_def)
qed

subsection \<open>The normalization on arbitrary strings and on narrow paths\<close>

text \<open>
  Claim C6 as stated, for every input path, does not hold of the code. The path of a
  slash and eight Kelvin signs U+212A has no segment that one of the three expressions
  matches, since the Kelvin sign is neither a digit nor a letter of \<^verbatim>\<open>[a-zA-Z0-9]\<close>; the
  final \<^verbatim>\<open>toLowerCase\<close> turns every Kelvin sign into the letter k, so the result is
  \<^verbatim>\<open>/kkkkkkkk\<close>. Applied to that result the function returns \<^verbatim>\<open>/:code\<close>: it is not
  idempotent. And the path and \<^verbatim>\<open>/kkkkkkkk\<close> differ only in letter case, yet their results
  differ.
\<close>

theorem endpoint_pattern_kelvin_counterexample:
  "getEndpointPattern (slash # replicate 8 0x212A) = Some (units ''/kkkkkkkk'') \<and>
   getEndpointPattern (units ''/kkkkkkkk'') = Some (units ''/:code'') \<and>
   units ''/kkkkkkkk'' \<noteq> units ''/:code''"
proof -
  have p: "replicate 8 u = [u, u, u, u, u, u, u, u]" for u :: nat
    by (simp add: numeral_eq_Suc)
  have a: "getEndpointPattern (slash # replicate 8 0x212A) = Some (units ''/kkkkkkkk'')"
    unfolding p
    by (simp add: getEndpointPattern_def replace_segments_def match_uuid_def match_numeric_def
        match_code_def match_classes_def uuid_pattern_def toLowerCase_def toLowerCase_unit_def
        units_def class_defs)
  have b: "getEndpointPattern (units ''/kkkkkkkk'') = Some (units ''/:code'')"
    by code_simp
  have c: "units ''/kkkkkkkk'' \<noteq> units ''/:code''"
    by code_simp
  from a b c show ?thesis by simp
qed

text \<open>
  Claim C6, amended. The normalization maps \<^verbatim>\<open>/screens/3fa85f64-5717-4562-b3fc-2c963f66afa6\<close>
  to \<^verbatim>\<open>/screens/:id\<close>, \<^verbatim>\<open>/media/42\<close> to \<^verbatim>\<open>/media/:id\<close> and \<^verbatim>\<open>/player/ABCD1234\<close> to
  \<^verbatim>\<open>/player/:code\<close>. On every path whose code units are all below 256 (every path of
  ASCII or Latin-1 characters) it is idempotent: it returns a result, again such a path,
  and applied to that result it returns the result unchanged. And on these paths it does
  not depend on letter case: two paths that have, position by position, the same code
  unit or the upper and the lower case of one letter have the same result.
\<close>

theorem endpoint_pattern_normalization:
  "getEndpointPattern (units ''/screens/3fa85f64-5717-4562-b3fc-2c963f66afa6'') =
     Some (units ''/screens/:id'') \<and>
   getEndpointPattern (units ''/media/42'') = Some (units ''/media/:id'') \<and>
   getEndpointPattern (units ''/player/ABCD1234'') = Some (units ''/player/:code'') \<and>
   (\<forall>path. narrow path \<longrightarrow>
      (\<exists>q. getEndpointPattern path = Some q \<and> narrow q \<and> getEndpointPattern q = Some q)) \<and>
   (\<forall>p q. narrow p \<and> differ_only_in_case p q \<longrightarrow>
      getEndpointPattern p = getEndpointPattern q)"
proof -
  have 1: "getEndpointPattern (units ''/screens/3fa85f64-5717-4562-b3fc-2c963f66afa6'') =
     Some (units ''/screens/:id'')"
    by code_simp
  have 2: "getEndpointPattern (units ''/media/42'') = Some (units ''/media/:id'')"
    by code_simp
  have 3: "getEndpointPattern (units ''/player/ABCD1234'') = Some (units ''/player/:code'')"
    by code_simp
  from 1 2 3 getEndpointPattern_idem getEndpointPattern_case show ?thesis by blast
qed

text \<open>
  Two spellings of one path that differ in letter case, their common result, and the
  result applied to itself.
\<close>

theorem endpoint_pattern_normalization_witness:
  "narrow (units ''/Player/abcd1234/Items'') \<and>
   differ_only_in_case (units ''/Player/abcd1234/Items'') (units ''/player/ABCD1234/items'') \<and>
   getEndpointPattern (units ''/Player/abcd1234/Items'') = Some (units ''/player/:code/items'') \<and>
   getEndpointPattern (units ''/player/ABCD1234/items'') = Some (units ''/player/:code/items'') \<and>
   getEndpointPattern (units ''/player/:code/items'') = Some (units ''/player/:code/items'')"
proof -
  have n: "narrow (units ''/Player/abcd1234/Items'')"
    by code_simp
  have s: "differ_only_in_case (units ''/Player/abcd1234/Items'') (units ''/player/ABCD1234/items'')"
    by code_simp
  have a: "getEndpointPattern (units ''/Player/abcd1234/Items'') =
             Some (units ''/player/:code/items'')"
    by code_simp
  note t = endpoint_pattern_normalization
  from t n s have b: "getEndpointPattern (units ''/Player/abcd1234/Items'') =
                    getEndpointPattern (units ''/player/ABCD1234/items'')"
    by blast
  from t n obtain q where q: "getEndpointPattern (units ''/Player/abcd1234/Items'') = Some q"
      "getEndpointPattern q = Some q"
    by blast
  with a have c: "getEndpointPattern (units ''/player/:code/items'') =
                    Some (units ''/player/:code/items'')"
    by simp
  from n s a b c show ?thesis by simp
qed

end
